theory Spec2Isabelle
  imports Main
begin

section \<open>Annuaire Sante search proxy: the query router and its strategies\<close>

text \<open>
  The development embeds the Pages function \<^verbatim>\<open>/api/search\<close> in its revision with
  the \<^verbatim>\<open>next\<close> continuation parameter, batches of 50 and a ceiling of 6 batches,
  and the two pieces of older revisions that differ from it and that the specification
  also draws on: the name plans of the revision that keeps the largest bundle (suffix
  \<open>_p002\<close>), and the batch fetcher with batches of 20 and no ceiling (suffix
  \<open>_p000\<close>).

  Conventions of the embedding.
  \<^item> A JavaScript string is a \<open>string\<close>, the bytes of its UTF-8 encoding (query
    parameters and JSON text are decoded from UTF-8, so every string of a request is
    such an encoding). White space is every character that \<^verbatim>\<open>trim\<close>, \<^verbatim>\<open>\s\<close>
    and \<^verbatim>\<open>parseInt\<close> take as white space; \<^verbatim>\<open>toLowerCase\<close> is modelled on ASCII
    only.
  \<^item> A value that may be \<^verbatim>\<open>undefined\<close> or \<^verbatim>\<open>null\<close> is an \<open>option\<close>.
  \<^item> An object used as a dictionary is the map \<open>string \<rightharpoonup> 'v\<close> of its own properties;
    a read goes through \<^verbatim>\<open>Object.prototype\<close> (section \<open>Plain objects\<close>).
  \<^item> Upstream JSON is FHIR-typed: a field holds a value of its FHIR type or is absent,
    and every resource of a search bundle has an id.
  \<^item> A number is an unbounded integer or \<^verbatim>\<open>NaN\<close>.
  \<^item> A thrown exception is the \<open>Inl\<close> branch of a sum.
\<close>

subsection \<open>Strings\<close>

definition startsWith :: "string \<Rightarrow> string \<Rightarrow> bool" where
  "startsWith s pre = (take (length pre) s = pre)"

fun includesStr :: "string \<Rightarrow> string \<Rightarrow> bool" where
  "includesStr [] sub = (sub = [])"
| "includesStr (c # cs) sub = (startsWith (c # cs) sub \<or> includesStr cs sub)"

definition lowerChar :: "char \<Rightarrow> char" where
  "lowerChar c = (let n = (of_char c :: nat) in
     if 65 \<le> n \<and> n \<le> 90 then char_of (n + 32) else c)"

definition toLowerCase :: "string \<Rightarrow> string" where
  "toLowerCase s = map lowerChar s"

text \<open>
  The white space of \<^verbatim>\<open>String.prototype.trim\<close>, of \<^verbatim>\<open>\s\<close> in a regular expression
  and of \<^verbatim>\<open>parseInt\<close> is the same set of characters: the ECMAScript
  \<^verbatim>\<open>WhiteSpace\<close> and \<^verbatim>\<open>LineTerminator\<close>. Here they are by their UTF-8 encodings:
  U+0009 to U+000D, U+0020, U+00A0, U+1680, U+2000 to U+200A, U+2028, U+2029, U+202F,
  U+205F, U+3000 and U+FEFF.
\<close>

definition whiteSpaces :: "string list" where
  "whiteSpaces =
     [ [CHR 0x09], [CHR 0x0A], [CHR 0x0B], [CHR 0x0C], [CHR 0x0D], [CHR 0x20],
      [CHR 0xC2, CHR 0xA0],
      [CHR 0xE1, CHR 0x9A, CHR 0x80],
      [CHR 0xE2, CHR 0x80, CHR 0x80], [CHR 0xE2, CHR 0x80, CHR 0x81],
      [CHR 0xE2, CHR 0x80, CHR 0x82], [CHR 0xE2, CHR 0x80, CHR 0x83],
      [CHR 0xE2, CHR 0x80, CHR 0x84], [CHR 0xE2, CHR 0x80, CHR 0x85],
      [CHR 0xE2, CHR 0x80, CHR 0x86], [CHR 0xE2, CHR 0x80, CHR 0x87],
      [CHR 0xE2, CHR 0x80, CHR 0x88], [CHR 0xE2, CHR 0x80, CHR 0x89],
      [CHR 0xE2, CHR 0x80, CHR 0x8A],
      [CHR 0xE2, CHR 0x80, CHR 0xA8], [CHR 0xE2, CHR 0x80, CHR 0xA9],
      [CHR 0xE2, CHR 0x80, CHR 0xAF],
      [CHR 0xE2, CHR 0x81, CHR 0x9F],
      [CHR 0xE3, CHR 0x80, CHR 0x80],
      [CHR 0xEF, CHR 0xBB, CHR 0xBF] ]"

text \<open>The white space character that \<open>s\<close> starts with, if any.\<close>

definition wsPrefix :: "string \<Rightarrow> string option" where
  "wsPrefix s = find (startsWith s) whiteSpaces"

text \<open>A string cut into its white space characters and its other bytes. (The bytes
  of a character that is no white space are cut apart: in UTF-8 no white space starts
  inside another character.)\<close>

datatype chunk = WhiteSpace string | Byte char

fun isWs :: "chunk \<Rightarrow> bool" where
  "isWs (WhiteSpace w) = True"
| "isWs (Byte c) = False"

fun chunkText :: "chunk \<Rightarrow> string" where
  "chunkText (WhiteSpace w) = w"
| "chunkText (Byte c) = [c]"

fun chunks :: "string \<Rightarrow> chunk list" where
  "chunks [] = []"
| "chunks (c # cs) =
     (case wsPrefix (c # cs) of
        Some w \<Rightarrow> WhiteSpace w # chunks (drop (length w - 1) cs)
      | None \<Rightarrow> Byte c # chunks cs)"

definition unchunk :: "chunk list \<Rightarrow> string" where
  "unchunk cs = concat (map chunkText cs)"

text \<open>\<^verbatim>\<open>s.trimStart()\<close> (the white space that \<^verbatim>\<open>parseInt\<close> skips) and
  \<^verbatim>\<open>s.trim()\<close>.\<close>

definition trimStart :: "string \<Rightarrow> string" where
  "trimStart s = unchunk (dropWhile isWs (chunks s))"

definition trim :: "string \<Rightarrow> string" where
  "trim s = unchunk (rev (dropWhile isWs (rev (dropWhile isWs (chunks s)))))"

text \<open>\<^verbatim>\<open>s.split(/\s+/)\<close>: cut at every maximal run of white space.\<close>

function splitWs :: "string \<Rightarrow> chunk list \<Rightarrow> string list" where
  "splitWs acc [] = [rev acc]"
| "splitWs acc (WhiteSpace w # cs) = rev acc # splitWs [] (dropWhile isWs cs)"
| "splitWs acc (Byte c # cs) = splitWs (c # acc) cs"
  by pat_completeness auto
termination
  by (relation "measure (\<lambda>(acc, s). length s)")
     (auto simp: length_dropWhile_le less_Suc_eq_le)

definition split_ws :: "string \<Rightarrow> string list" where
  "split_ws s = splitWs [] (chunks s)"

fun join :: "string \<Rightarrow> string list \<Rightarrow> string" where
  "join sep [] = []"
| "join sep [x] = x"
| "join sep (x # y # ys) = x @ sep @ join sep (y # ys)"

text \<open>\<^verbatim>\<open>s.replace(pat, rep)\<close> with a string pattern: the first occurrence only.\<close>

fun replaceFirst :: "string \<Rightarrow> string \<Rightarrow> string \<Rightarrow> string" where
  "replaceFirst pat rep [] = (if pat = [] then rep else [])"
| "replaceFirst pat rep (c # cs) =
     (if startsWith (c # cs) pat then rep @ drop (length pat) (c # cs)
      else c # replaceFirst pat rep cs)"

text \<open>The value of \<^verbatim>\<open>a || b\<close> on strings that may be absent: the first truthy one,
  else \<^verbatim>\<open>b\<close>.\<close>

definition truthy :: "string option \<Rightarrow> bool" where
  "truthy v = (case v of None \<Rightarrow> False | Some s \<Rightarrow> s \<noteq> [])"

definition orElse :: "string option \<Rightarrow> string option \<Rightarrow> string option" where
  "orElse a b = (if truthy a then a else b)"

definition orEmpty :: "string option \<Rightarrow> string" where
  "orEmpty a = (case a of None \<Rightarrow> [] | Some s \<Rightarrow> s)"

definition orNull :: "string option \<Rightarrow> string option" where
  "orNull a = (if truthy a then a else None)"

definition orNil :: "'a list option \<Rightarrow> 'a list" where
  "orNil a = (case a of None \<Rightarrow> [] | Some xs \<Rightarrow> xs)"

subsection \<open>Numbers: the page size\<close>

datatype jsnum = NaN | Num int

definition digitVal :: "char \<Rightarrow> int" where
  "digitVal c = int (of_char c) - 48"

definition isDigit :: "char \<Rightarrow> bool" where
  "isDigit c = (let n = (of_char c :: nat) in 48 \<le> n \<and> n \<le> 57)"

definition digitsVal :: "string \<Rightarrow> int" where
  "digitsVal ds = foldl (\<lambda>a c. 10 * a + digitVal c) 0 ds"

text \<open>\<^verbatim>\<open>parseInt(s, 10)\<close>: leading white space, an optional sign, the longest run of
  decimal digits; \<^verbatim>\<open>NaN\<close> when there is no digit.\<close>

definition parseInt10 :: "string \<Rightarrow> jsnum" where
  "parseInt10 s =
     (let t = trimStart s;
          neg = (t \<noteq> [] \<and> hd t = CHR ''-'');
          u = (if t \<noteq> [] \<and> (hd t = CHR ''-'' \<or> hd t = CHR ''+'') then tl t else t);
          ds = takeWhile isDigit u
      in if ds = [] then NaN
         else Num (if neg then - digitsVal ds else digitsVal ds))"

text \<open>\<^verbatim>\<open>Math.min(x, m)\<close> is \<^verbatim>\<open>NaN\<close> as soon as an argument is.\<close>

fun mathMin :: "jsnum \<Rightarrow> jsnum \<Rightarrow> jsnum" where
  "mathMin (Num a) (Num b) = Num (min a b)"
| "mathMin _ _ = NaN"

text \<open>\<^verbatim>\<open>xs.slice(0, n)\<close>: a negative end counts from the end of the array, \<^verbatim>\<open>NaN\<close>
  is 0.\<close>

fun sliceTo :: "'a list \<Rightarrow> jsnum \<Rightarrow> 'a list" where
  "sliceTo xs NaN = []"
| "sliceTo xs (Num n) =
     (if n < 0 then take (nat (int (length xs) + n)) xs else take (nat n) xs)"

function showNat :: "nat \<Rightarrow> string" where
  "showNat n = (if n < 10 then [char_of (48 + n)]
                else showNat (n div 10) @ [char_of (48 + n mod 10)])"
  by pat_completeness auto
termination
  by (relation "measure id") auto

declare showNat.simps [simp del]

fun numToString :: "jsnum \<Rightarrow> string" where
  "numToString NaN = ''NaN''"
| "numToString (Num n) = (if n < 0 then CHR ''-'' # showNat (nat (- n)) else showNat (nat n))"

subsection \<open>Errors\<close>

text \<open>\<^verbatim>\<open>fhirFetch\<close> throws on a non-success status, with the status and the first 200
  characters of the body; calling \<^verbatim>\<open>toLowerCase\<close> on \<^verbatim>\<open>undefined\<close> throws the
  TypeError \<open>TypeError\<close>; calling as a method a property that the object does not have
  throws the TypeError \<open>NotAFunction\<close>, which carries the text of the callee.\<close>

datatype error = FhirApiError nat string | TypeError | NotAFunction string

subsection \<open>Plain objects\<close>

text \<open>
  An object made by \<^verbatim>\<open>{}\<close> and used as a dictionary has the prototype
  \<^verbatim>\<open>Object.prototype\<close>: reading a key that is not an own property gives the member of
  that name of the prototype, when there is one. \<open>inheritedKeys\<close> are the names of
  the members of \<^verbatim>\<open>Object.prototype\<close>. The value of each is truthy (a function, and
  for \<^verbatim>\<open>__proto__\<close> the prototype itself), is no array, has no method
  \<^verbatim>\<open>push\<close> or \<^verbatim>\<open>some\<close>, and no property \<^verbatim>\<open>city\<close> or \<^verbatim>\<open>address\<close>.

  The code writes a property either under the id of a resource
  (\<^verbatim>\<open>orgs[org.id] = org\<close>), or under a key whose read gave a falsy value
  (\<^verbatim>\<open>if (!m[k]) m[k] = []\<close>). Both create an own property, the first for every id
  but \<^verbatim>\<open>__proto__\<close>, which is no FHIR id (an id is made of letters, digits,
  \<^verbatim>\<open>-\<close> and \<^verbatim>\<open>.\<close>); the second never meets a name of the prototype. So a
  write is a map update.
\<close>

datatype 'a member = Value 'a | Inherited string

definition inheritedKeys :: "string list" where
  "inheritedKeys =
     [''constructor'', ''__defineGetter__'', ''__defineSetter__'', ''hasOwnProperty'',
      ''__lookupGetter__'', ''__lookupSetter__'', ''isPrototypeOf'',
      ''propertyIsEnumerable'', ''toString'', ''valueOf'', ''__proto__'',
      ''toLocaleString'']"

text \<open>\<^verbatim>\<open>obj[k]\<close>: the own property, else the inherited member, else
  \<^verbatim>\<open>undefined\<close>.\<close>

definition getProp :: "(string \<rightharpoonup> 'a) \<Rightarrow> string \<Rightarrow> 'a member option" where
  "getProp obj k =
     (case obj k of Some v \<Rightarrow> Some (Value v)
      | None \<Rightarrow> if k \<in> set inheritedKeys then Some (Inherited k) else None)"

subsection \<open>Raw registry resources\<close>

record coding =
  c_system :: "string option"
  c_code :: "string option"
  c_display :: "string option"

record codeable =
  cc_coding :: "coding list option"
  cc_text :: "string option"

record raw_identifier =
  ri_system :: "string option"
  ri_value :: "string option"
  ri_type :: "codeable option"

record raw_qualification =
  rq_code :: "codeable option"

record human_name =
  hn_family :: "string option"
  hn_given :: "string list option"
  hn_prefix :: "string list option"
  hn_suffix :: "string list option"

record raw_practitioner =
  rp_id :: string
  rp_name :: "human_name list option"
  rp_identifier :: "raw_identifier list option"
  rp_qualification :: "raw_qualification list option"
  rp_active :: "bool option"

record contact =
  t_system :: "string option"
  t_value :: "string option"
  t_use :: "string option"

record reference =
  ref_reference :: "string option"

record raw_role =
  rr_id :: string
  rr_practitioner :: "reference option"
  rr_organization :: "reference option"
  rr_specialty :: "codeable list option"
  rr_telecom :: "contact list option"
  rr_active :: "bool option"

record raw_address =
  ra_line :: "string list option"
  ra_postalCode :: "string option"
  ra_city :: "string option"
  ra_country :: "string option"

record raw_organization =
  ro_id :: string
  ro_name :: "string option"
  ro_type :: "codeable list option"
  ro_address :: "raw_address list option"
  ro_telecom :: "contact list option"

datatype resource =
  PractitionerRes raw_practitioner
| PractitionerRoleRes raw_role
| OrganizationRes raw_organization

fun resourceId :: "resource \<Rightarrow> string" where
  "resourceId (PractitionerRes r) = rp_id r"
| "resourceId (PractitionerRoleRes r) = rr_id r"
| "resourceId (OrganizationRes r) = ro_id r"

record bundle_link =
  l_relation :: string
  l_url :: string

record fhir_bundle =
  b_entry :: "resource list option"
  b_total :: "int option"
  b_link :: "bundle_link list option"

subsection \<open>Flat records\<close>

record ident =
  i_system :: "string option"
  i_value :: "string option"
  i_type :: string

record qualification =
  q_code :: "string option"
  q_display :: "string option"
  q_system :: "string option"

record practitioner =
  p_id :: string
  p_rpps :: "string option"
  p_identifiers :: "ident list"
  p_lastName :: string
  p_firstName :: string
  p_prefix :: "string option"
  p_suffix :: "string option"
  p_qualifications :: "qualification list"
  p_active :: "bool option"

record organization =
  o_id :: string
  o_name :: string
  o_type :: string
  o_address :: "string option"
  o_city :: "string option"
  o_postalCode :: "string option"
  o_telecoms :: "contact list"

text \<open>A role as \<^verbatim>\<open>parsePractitionerRole\<close> builds it, with the three properties that
  later code reads or sets on it: \<^verbatim>\<open>organization\<close> (attached by the merge: what
  the read of the organizations object gave), and \<^verbatim>\<open>address\<close> and \<^verbatim>\<open>city\<close>
  (read by \<^verbatim>\<open>filterByCity\<close>, never set by the parser).\<close>

record role =
  r_id :: string
  practitionerId :: string
  organizationId :: string
  specialties :: "string option list"
  telecoms :: "contact list"
  r_active :: bool
  r_organization :: "organization member option"
  r_address :: "string option"
  r_city :: "string option"

text \<open>A result: the practitioner and \<^verbatim>\<open>roles\<close>, which is what the read of
  \<^verbatim>\<open>rolesByPractitioner\<close> gave, or the empty array.\<close>

record merged = practitioner +
  roles :: "role list member"

subsection \<open>Parsers\<close>

definition firstCoding :: "codeable option \<Rightarrow> coding option" where
  "firstCoding cc = (case cc of None \<Rightarrow> None
     | Some c \<Rightarrow> (case cc_coding c of None \<Rightarrow> None | Some [] \<Rightarrow> None | Some (x # _) \<Rightarrow> Some x))"

definition optIncludes :: "string option \<Rightarrow> string \<Rightarrow> bool" where
  "optIncludes v sub = (case v of None \<Rightarrow> False | Some s \<Rightarrow> includesStr s sub)"

definition identifierType :: "raw_identifier \<Rightarrow> string" where
  "identifierType i =
     (if optIncludes (ri_system i) ''rpps'' then ''RPPS''
      else if optIncludes (ri_system i) ''adeli'' then ''ADELI''
      else (let c = (case firstCoding (ri_type i) of None \<Rightarrow> None | Some c \<Rightarrow> c_code c)
            in if truthy c then orEmpty c else ''OTHER''))"

definition joinOpt :: "string list option \<Rightarrow> string" where
  "joinOpt xs = join '' '' (orNil xs)"

definition parsePractitioner :: "raw_practitioner \<Rightarrow> practitioner" where
  "parsePractitioner resource =
     (let name = (case rp_name resource of Some (n # _) \<Rightarrow> n
                  | _ \<Rightarrow> \<lparr>hn_family = None, hn_given = None, hn_prefix = None, hn_suffix = None\<rparr>);
          identifiers = map (\<lambda>i. \<lparr>i_system = ri_system i, i_value = ri_value i,
                                   i_type = identifierType i\<rparr>) (orNil (rp_identifier resource));
          qualifications = map (\<lambda>q.
              (let c = firstCoding (rq_code q) in
               \<lparr>q_code = (case c of None \<Rightarrow> None | Some c \<Rightarrow> c_code c),
                q_display = orElse (case c of None \<Rightarrow> None | Some c \<Rightarrow> c_display c)
                                   (case rq_code q of None \<Rightarrow> None | Some cc \<Rightarrow> cc_text cc),
                q_system = (case c of None \<Rightarrow> None | Some c \<Rightarrow> c_system c)\<rparr>))
            (orNil (rp_qualification resource));
          rpps = orNull (case find (\<lambda>i. i_type i = ''RPPS'') identifiers of
                           None \<Rightarrow> None | Some i \<Rightarrow> i_value i)
      in \<lparr>p_id = rp_id resource, p_rpps = rpps, p_identifiers = identifiers,
          p_lastName = orEmpty (orElse (hn_family name) (Some [])),
          p_firstName = joinOpt (hn_given name),
          p_prefix = Some (joinOpt (hn_prefix name)),
          p_suffix = Some (joinOpt (hn_suffix name)),
          p_qualifications = qualifications,
          p_active = Some (rp_active resource \<noteq> Some False)\<rparr>)"

definition refOf :: "reference option \<Rightarrow> string" where
  "refOf r = orEmpty (orElse (case r of None \<Rightarrow> None | Some x \<Rightarrow> ref_reference x) (Some []))"

definition parsePractitionerRole :: "raw_role \<Rightarrow> role" where
  "parsePractitionerRole resource =
     (let specs = concat (map (\<lambda>s. map (\<lambda>c. orElse (c_display c) (c_code c))
                                        (orNil (cc_coding s)))
                              (orNil (rr_specialty resource)));
          tels = orNil (rr_telecom resource);
          practRef = refOf (rr_practitioner resource);
          orgRef = refOf (rr_organization resource)
      in \<lparr>r_id = rr_id resource,
          practitionerId = replaceFirst ''Practitioner/'' [] practRef,
          organizationId = replaceFirst ''Organization/'' [] orgRef,
          specialties = specs, telecoms = tels,
          r_active = (rr_active resource \<noteq> Some False),
          r_organization = None, r_address = None, r_city = None\<rparr>)"

definition formatAddress :: "raw_address \<Rightarrow> string" where
  "formatAddress addr =
     join '', '' (filter (\<lambda>s. s \<noteq> [])
       (orNil (ra_line addr)
        @ [join '' '' (map orEmpty (filter truthy [ra_postalCode addr, ra_city addr])),
           orEmpty (ra_country addr)]))"

definition parseOrganization :: "raw_organization \<Rightarrow> organization" where
  "parseOrganization resource =
     (let addr = (case ro_address resource of Some (a # _) \<Rightarrow> Some a | _ \<Rightarrow> None);
          tels = map (\<lambda>t. t\<lparr>t_use := None\<rparr>) (orNil (ro_telecom resource))
      in \<lparr>o_id = ro_id resource,
          o_name = orEmpty (ro_name resource),
          o_type = orEmpty (case ro_type resource of Some (t # _) \<Rightarrow>
                      (case firstCoding (Some t) of None \<Rightarrow> None | Some c \<Rightarrow> c_display c)
                    | _ \<Rightarrow> None),
          o_address = (case addr of None \<Rightarrow> None | Some a \<Rightarrow> Some (formatAddress a)),
          o_city = (case addr of None \<Rightarrow> None | Some a \<Rightarrow> orNull (ra_city a)),
          o_postalCode = (case addr of None \<Rightarrow> None | Some a \<Rightarrow> orNull (ra_postalCode a)),
          o_telecoms = tels\<rparr>)"

subsection \<open>Post-filters\<close>

text \<open>\<^verbatim>\<open>v?.toLowerCase().includes(needle)\<close>: false when \<^verbatim>\<open>v\<close> is absent.\<close>

definition lowerIncludes :: "string option \<Rightarrow> string \<Rightarrow> bool" where
  "lowerIncludes v needle =
     (case v of None \<Rightarrow> False | Some s \<Rightarrow> includesStr (toLowerCase s) needle)"

text \<open>\<^verbatim>\<open>role.organization?.city\<close>: absent when the organization is, and when it
  is a member of the prototype.\<close>

definition orgProperty ::
  "(organization \<Rightarrow> string option) \<Rightarrow> organization member option \<Rightarrow> string option" where
  "orgProperty f og = (case og of Some (Value x) \<Rightarrow> f x | _ \<Rightarrow> None)"

definition roleInCity :: "string \<Rightarrow> role \<Rightarrow> bool" where
  "roleInCity cityLower rl =
     (lowerIncludes (r_address rl) cityLower
      \<or> lowerIncludes (r_city rl) cityLower
      \<or> lowerIncludes (orgProperty o_city (r_organization rl)) cityLower
      \<or> lowerIncludes (orgProperty o_address (r_organization rl)) cityLower)"

text \<open>\<^verbatim>\<open>Array.prototype.some\<close> and \<^verbatim>\<open>filter\<close> with a callback that may throw: the
  elements are visited in order, \<^verbatim>\<open>some\<close> stops at the first hit, and an exception
  leaves the whole call.\<close>

fun someE :: "('a \<Rightarrow> error + bool) \<Rightarrow> 'a list \<Rightarrow> error + bool" where
  "someE f [] = Inr False"
| "someE f (x # xs) =
     (case f x of Inl e \<Rightarrow> Inl e
      | Inr b \<Rightarrow> if b then Inr True else someE f xs)"

fun filterE :: "('a \<Rightarrow> error + bool) \<Rightarrow> 'a list \<Rightarrow> error + 'a list" where
  "filterE f [] = Inr []"
| "filterE f (x # xs) =
     (case f x of Inl e \<Rightarrow> Inl e
      | Inr b \<Rightarrow> (case filterE f xs of Inl e \<Rightarrow> Inl e
                  | Inr ys \<Rightarrow> Inr (if b then x # ys else ys)))"

text \<open>\<^verbatim>\<open>r.roles.some(f)\<close>: a member of the prototype has no method
  \<^verbatim>\<open>some\<close>.\<close>

definition rolesSome :: "(role \<Rightarrow> error + bool) \<Rightarrow> role list member \<Rightarrow> error + bool" where
  "rolesSome f rs =
     (case rs of Value rls \<Rightarrow> someE f rls
      | Inherited k \<Rightarrow> Inl (NotAFunction ''r.roles.some''))"

definition filterByCity :: "merged list \<Rightarrow> string \<Rightarrow> error + merged list" where
  "filterByCity results city =
     (if city = [] then Inr results
      else filterE (\<lambda>r. rolesSome (\<lambda>rl. Inr (roleInCity (toLowerCase city) rl)) (roles r))
             results)"

text \<open>\<^verbatim>\<open>s.toLowerCase().includes(specLower)\<close> on a specialty label: the label is
  \<^verbatim>\<open>c.display || c.code\<close>, hence \<^verbatim>\<open>undefined\<close> for a coding with neither, and the
  call is not guarded by \<^verbatim>\<open>?.\<close>.\<close>

definition labelMatches :: "string \<Rightarrow> string option \<Rightarrow> error + bool" where
  "labelMatches specLower s =
     (case s of None \<Rightarrow> Inl TypeError
      | Some l \<Rightarrow> Inr (includesStr (toLowerCase l) specLower))"

definition resultHasSpecialty :: "string \<Rightarrow> merged \<Rightarrow> error + bool" where
  "resultHasSpecialty specLower r =
     (case rolesSome (\<lambda>rl. someE (labelMatches specLower) (specialties rl)) (roles r) of
        Inl e \<Rightarrow> Inl e
      | Inr b \<Rightarrow> if b then Inr True
                 else Inr (list_ex (\<lambda>q. lowerIncludes (q_display q) specLower)
                             (p_qualifications r)))"

definition filterBySpecialty :: "merged list \<Rightarrow> string \<Rightarrow> error + merged list" where
  "filterBySpecialty results specialty =
     (if specialty = [] then Inr results
      else filterE (resultHasSpecialty (toLowerCase specialty)) results)"

subsection \<open>Merge\<close>

text \<open>\<^verbatim>\<open>if (role.organizationId && orgs[role.organizationId]) role.organization =
  orgs[role.organizationId]\<close>.\<close>

definition attachOrganization :: "(string \<rightharpoonup> organization) \<Rightarrow> role \<Rightarrow> role" where
  "attachOrganization orgs rl =
     (if organizationId rl \<noteq> [] \<and> getProp orgs (organizationId rl) \<noteq> None
      then rl\<lparr>r_organization := getProp orgs (organizationId rl)\<rparr> else rl)"

text \<open>\<^verbatim>\<open>if (!m[pid]) m[pid] = []; m[pid].push(role)\<close>: under a name of the prototype
  that is no own property, the read is truthy, nothing is assigned, and the call of
  \<^verbatim>\<open>push\<close> throws. The first argument is the text of the callee.\<close>

definition pushRole ::
  "string \<Rightarrow> (string \<rightharpoonup> role list) \<Rightarrow> string \<Rightarrow> role \<Rightarrow> error + (string \<rightharpoonup> role list)" where
  "pushRole callee m pid rl =
     (case getProp m pid of
        None \<Rightarrow> Inr (m(pid \<mapsto> [rl]))
      | Some (Value l) \<Rightarrow> Inr (m(pid \<mapsto> l @ [rl]))
      | Some (Inherited k) \<Rightarrow> Inl (NotAFunction callee))"

fun groupRoles ::
  "(string \<rightharpoonup> organization) \<Rightarrow> role list \<Rightarrow> (string \<rightharpoonup> role list)
   \<Rightarrow> error + (string \<rightharpoonup> role list)"
where
  "groupRoles orgs [] m = Inr m"
| "groupRoles orgs (rl # rls) m =
     (if practitionerId rl = [] then groupRoles orgs rls m
      else (case pushRole ''rolesByPractitioner[role.practitionerId].push'' m
                   (practitionerId rl) (attachOrganization orgs rl) of
              Inl e \<Rightarrow> Inl e
            | Inr m' \<Rightarrow> groupRoles orgs rls m'))"

text \<open>\<^verbatim>\<open>{...p, roles: rolesByPractitioner[p.id] || []}\<close>.\<close>

definition withRoles :: "(string \<rightharpoonup> role list) \<Rightarrow> practitioner \<Rightarrow> merged" where
  "withRoles m p =
     practitioner.extend p
       (merged.fields (case getProp m (p_id p) of None \<Rightarrow> Value [] | Some v \<Rightarrow> v))"

definition mergePractitionersAndRoles ::
  "practitioner list \<Rightarrow> role list \<Rightarrow> (string \<rightharpoonup> organization) \<Rightarrow> error + merged list" where
  "mergePractitionersAndRoles practitioners rls orgs =
     (case groupRoles orgs rls Map.empty of
        Inl e \<Rightarrow> Inl e
      | Inr rolesByPractitioner \<Rightarrow> Inr (map (withRoles rolesByPractitioner) practitioners))"

subsection \<open>Remote calls\<close>

text \<open>
  A remote call is a search on one resource kind with its query parameters (the URL
  \<^verbatim>\<open>${API_BASE}/<kind>?<params>\<close>), or a URL taken as it is (a continuation link).
  The upstream answers a call from the calls made before it and the call itself, so
  any sequence of answers is an upstream. The calls issued so far are the only state
  of a request; \<^verbatim>\<open>fhirFetch\<close> appends to them. The API key header is not modelled.
\<close>

definition API_BASE :: string where
  "API_BASE = ''https://gateway.api.esante.gouv.fr/fhir/v2''"

datatype request = Search string "(string \<times> string) list" | Follow string

datatype http_result = HttpOk fhir_bundle | HttpError nat string

type_synonym upstream = "request list \<Rightarrow> request \<Rightarrow> http_result"

type_synonym 'a io = "request list \<Rightarrow> (error + 'a) \<times> request list"

definition retIO :: "'a \<Rightarrow> 'a io" where
  "retIO x = (\<lambda>log. (Inr x, log))"

definition bindIO :: "'a io \<Rightarrow> ('a \<Rightarrow> 'b io) \<Rightarrow> 'b io" where
  "bindIO m f = (\<lambda>log. case m log of (Inl e, log') \<Rightarrow> (Inl e, log')
                                     | (Inr x, log') \<Rightarrow> f x log')"

text \<open>A computation without a remote call, which may throw.\<close>

definition liftE :: "error + 'a \<Rightarrow> 'a io" where
  "liftE v = (\<lambda>log. (v, log))"

definition fhirFetch :: "upstream \<Rightarrow> request \<Rightarrow> fhir_bundle io" where
  "fhirFetch up req = (\<lambda>log.
     ((case up log req of HttpOk b \<Rightarrow> Inr b
       | HttpError st txt \<Rightarrow> Inl (FhirApiError st (take 200 txt))),
      log @ [req]))"

text \<open>\<^verbatim>\<open>URLSearchParams.set\<close>: the first pair of that name takes the value and the
  others go; a new name is appended.\<close>

fun psSet :: "string \<Rightarrow> string \<Rightarrow> (string \<times> string) list \<Rightarrow> (string \<times> string) list" where
  "psSet k v [] = [(k, v)]"
| "psSet k v (kv # ps) =
     (if fst kv = k then (k, v) # filter (\<lambda>q. fst q \<noteq> k) ps else kv # psSet k v ps)"

text \<open>\<^verbatim>\<open>!bundle.entry?.length\<close>, \<^verbatim>\<open>bundle.total || 0\<close> and
  \<^verbatim>\<open>bundle.link?.find(l => l.relation === 'next')?.url\<close>.\<close>

definition noEntries :: "fhir_bundle \<Rightarrow> bool" where
  "noEntries b = (orNil (b_entry b) = [])"

definition totalOr0 :: "fhir_bundle \<Rightarrow> int" where
  "totalOr0 b = (case b_total b of None \<Rightarrow> 0 | Some t \<Rightarrow> t)"

definition nextLink :: "fhir_bundle \<Rightarrow> string option" where
  "nextLink b = (case find (\<lambda>l. l_relation l = ''next'') (orNil (b_link b)) of
                   None \<Rightarrow> None | Some l \<Rightarrow> Some (l_url l))"

subsection \<open>Responses\<close>

text \<open>The JSON body of a response. A key whose value is \<^verbatim>\<open>undefined\<close> is left out by
  \<^verbatim>\<open>JSON.stringify\<close>: it is \<open>None\<close> here, and \<^verbatim>\<open>nextPage: null\<close> is
  \<open>Some None\<close>.\<close>

record envelope =
  total :: nat
  totalFhir :: "int option"
  results :: "merged list"
  message :: "string option"
  nextPage :: "string option option"

datatype body = NoBody | ErrorBody string | Envelope envelope

record response =
  status :: nat
  body :: body

definition jsonResponse :: "body \<Rightarrow> nat \<Rightarrow> response" where
  "jsonResponse data st = \<lparr>status = st, body = data\<rparr>"

definition envelopeOf ::
  "merged list \<Rightarrow> int option \<Rightarrow> string option \<Rightarrow> string option option \<Rightarrow> response" where
  "envelopeOf rs tf msg np =
     jsonResponse (Envelope \<lparr>total = length rs, totalFhir = tf, results = rs,
                             message = msg, nextPage = np\<rparr>) 200"

subsection \<open>The batch fetcher\<close>

record roles_result =
  practitionerRoles :: "role list"
  organizations :: "string \<rightharpoonup> organization"

fun collectEntry :: "roles_result \<Rightarrow> resource \<Rightarrow> roles_result" where
  "collectEntry acc (PractitionerRoleRes r) =
     acc\<lparr>practitionerRoles := practitionerRoles acc @ [parsePractitionerRole r]\<rparr>"
| "collectEntry acc (OrganizationRes og) =
     acc\<lparr>organizations := (organizations acc)(ro_id og \<mapsto> parseOrganization og)\<rparr>"
| "collectEntry acc (PractitionerRes _) = acc"

definition roleBatchRequest :: "string list \<Rightarrow> request" where
  "roleBatchRequest batch =
     Search ''PractitionerRole''
       [(''practitioner'', join '','' batch), (''_count'', ''200''),
        (''_include'', ''PractitionerRole:organization'')]"

text \<open>The loop of \<^verbatim>\<open>fetchRolesForPractitioners\<close>, with \<^verbatim>\<open>batchSize = 50\<close> and
  \<^verbatim>\<open>maxBatches = 6\<close>; \<^verbatim>\<open>i / batchSize < maxBatches\<close> is \<open>i < 50 * 6\<close>.\<close>

function fetchRolesLoop ::
  "upstream \<Rightarrow> string list \<Rightarrow> nat \<Rightarrow> roles_result \<Rightarrow> roles_result io" where
  "fetchRolesLoop up ids i acc log =
     (if i < length ids \<and> i < 50 * 6 then
        (case fhirFetch up (roleBatchRequest (take 50 (drop i ids))) log of
           (Inl e, log') \<Rightarrow> (Inl e, log')
         | (Inr b, log') \<Rightarrow>
             fetchRolesLoop up ids (i + 50) (foldl collectEntry acc (orNil (b_entry b))) log')
      else (Inr acc, log))"
  by pat_completeness auto
termination
  by (relation "measure (\<lambda>(up, ids, i, acc, log). length ids - i)") auto

declare fetchRolesLoop.simps [simp del]

definition fetchRolesForPractitioners :: "upstream \<Rightarrow> string list \<Rightarrow> roles_result io" where
  "fetchRolesForPractitioners up ids =
     fetchRolesLoop up ids 0 \<lparr>practitionerRoles = [], organizations = Map.empty\<rparr>"

text \<open>The older fetcher: \<^verbatim>\<open>batchSize = 20\<close>, no ceiling on the number of batches.\<close>

function fetchRolesLoop_p000 ::
  "upstream \<Rightarrow> string list \<Rightarrow> nat \<Rightarrow> roles_result \<Rightarrow> roles_result io" where
  "fetchRolesLoop_p000 up ids i acc log =
     (if i < length ids then
        (case fhirFetch up (roleBatchRequest (take 20 (drop i ids))) log of
           (Inl e, log') \<Rightarrow> (Inl e, log')
         | (Inr b, log') \<Rightarrow>
             fetchRolesLoop_p000 up ids (i + 20)
               (foldl collectEntry acc (orNil (b_entry b))) log')
      else (Inr acc, log))"
  by pat_completeness auto
termination
  by (relation "measure (\<lambda>(up, ids, i, acc, log). length ids - i)") auto

declare fetchRolesLoop_p000.simps [simp del]

definition fetchRolesForPractitioners_p000 :: "upstream \<Rightarrow> string list \<Rightarrow> roles_result io" where
  "fetchRolesForPractitioners_p000 up ids =
     fetchRolesLoop_p000 up ids 0 \<lparr>practitionerRoles = [], organizations = Map.empty\<rparr>"

subsection \<open>Strategies\<close>

text \<open>A parser applied to a resource of another kind reads the properties that
  resource has under the names it looks for: the id, and for a role its
  \<^verbatim>\<open>active\<close> and \<^verbatim>\<open>telecom\<close>; a shared name of another type is read as absent.\<close>

fun asPractitioner :: "resource \<Rightarrow> practitioner" where
  "asPractitioner (PractitionerRes r) = parsePractitioner r"
| "asPractitioner (PractitionerRoleRes r) =
     parsePractitioner \<lparr>rp_id = rr_id r, rp_name = None, rp_identifier = None,
                        rp_qualification = None, rp_active = rr_active r\<rparr>"
| "asPractitioner (OrganizationRes r) =
     parsePractitioner \<lparr>rp_id = ro_id r, rp_name = None, rp_identifier = None,
                        rp_qualification = None, rp_active = None\<rparr>"

fun asOrganization :: "resource \<Rightarrow> organization" where
  "asOrganization (OrganizationRes r) = parseOrganization r"
| "asOrganization (PractitionerRoleRes r) =
     parseOrganization \<lparr>ro_id = rr_id r, ro_name = None, ro_type = None, ro_address = None,
                        ro_telecom = rr_telecom r\<rparr>"
| "asOrganization (PractitionerRes r) =
     parseOrganization \<lparr>ro_id = rp_id r, ro_name = None, ro_type = None, ro_address = None,
                        ro_telecom = None\<rparr>"

text \<open>The common tail of the practitioner strategies: parse the entries, fetch their
  roles, merge.\<close>

definition resolveRoles :: "upstream \<Rightarrow> resource list \<Rightarrow> merged list io" where
  "resolveRoles up entries =
     (let practitioners = map asPractitioner entries in
      bindIO (fetchRolesForPractitioners up (map p_id practitioners)) (\<lambda>rr.
        liftE (mergePractitionersAndRoles practitioners (practitionerRoles rr)
                 (organizations rr))))"

definition handleLoadMore :: "upstream \<Rightarrow> string \<Rightarrow> response io" where
  "handleLoadMore up nextUrl =
     (if \<not> startsWith nextUrl API_BASE
      then retIO (jsonResponse (ErrorBody ''Invalid pagination URL'') 400)
      else bindIO (fhirFetch up (Follow nextUrl)) (\<lambda>b.
        if noEntries b then retIO (envelopeOf [] None None (Some None))
        else bindIO (resolveRoles up (orNil (b_entry b))) (\<lambda>rs.
          retIO (envelopeOf rs (Some (totalOr0 b)) None (Some (orNull (nextLink b)))))))"

definition searchByRpps :: "upstream \<Rightarrow> string \<Rightarrow> response io" where
  "searchByRpps up rpps =
     bindIO (fhirFetch up (Search ''Practitioner''
               (psSet ''_count'' ''10''
                 (psSet ''identifier'' (''https://rpps.esante.gouv.fr|'' @ rpps) [])))) (\<lambda>b.
       if noEntries b then retIO (envelopeOf [] None None None)
       else bindIO (resolveRoles up (orNil (b_entry b))) (\<lambda>rs.
         retIO (envelopeOf rs None None None)))"

subsubsection \<open>Specialty and city: the reverse lookup through organizations\<close>

definition e_acute :: string where "e_acute = [CHR 0xC3, CHR 0xA9]"
definition a_grave :: string where "a_grave = [CHR 0xC3, CHR 0xA0]"
definition em_dash :: string where "em_dash = [CHR 0xE2, CHR 0x80, CHR 0x94]"

definition noStructureMessage :: "string \<Rightarrow> string" where
  "noStructureMessage city =
     ''Aucune structure trouv'' @ e_acute @ ''e '' @ a_grave @ '' '' @ city"

definition organizationQuery :: "string \<Rightarrow> request" where
  "organizationQuery city =
     Search ''Organization''
       (psSet ''_elements'' ''id,name,address,telecom''
         (psSet ''_count'' ''200'' (psSet ''address-city'' city [])))"

definition orgIndex :: "resource list \<Rightarrow> (string \<rightharpoonup> organization) \<times> string list" where
  "orgIndex entries =
     foldl (\<lambda>(orgs, orgIds) e. (let og = asOrganization e
                                 in (orgs(o_id og \<mapsto> og), orgIds @ [o_id og])))
           (Map.empty, []) entries"

text \<open>A loop over an array whose body may throw.\<close>

fun foldE :: "('s \<Rightarrow> 'a \<Rightarrow> error + 's) \<Rightarrow> 's \<Rightarrow> 'a list \<Rightarrow> error + 's" where
  "foldE f s [] = Inr s"
| "foldE f s (x # xs) = (case f s x of Inl e \<Rightarrow> Inl e | Inr s' \<Rightarrow> foldE f s' xs)"

text \<open>Phase 2 state: the set of practitioner ids in insertion order, and their roles.\<close>

fun collectOrgRole ::
  "(string \<rightharpoonup> organization) \<Rightarrow> string list \<times> (string \<rightharpoonup> role list) \<Rightarrow> resource
   \<Rightarrow> error + string list \<times> (string \<rightharpoonup> role list)" where
  "collectOrgRole orgs (pids, byPract) (PractitionerRoleRes r) =
     (let rl = attachOrganization orgs (parsePractitionerRole r);
          pid = practitionerId rl
      in (case pushRole ''rolesByPractitioner[pid].push'' byPract pid rl of
            Inl e \<Rightarrow> Inl e
          | Inr byPract' \<Rightarrow> Inr (if pid \<in> set pids then pids else pids @ [pid], byPract')))"
| "collectOrgRole orgs st _ = Inr st"

definition orgBatchRequest :: "string list \<Rightarrow> request" where
  "orgBatchRequest batch =
     Search ''PractitionerRole''
       (psSet ''_count'' ''200'' (psSet ''organization'' (join '','' batch) []))"

function orgRolesLoop ::
  "upstream \<Rightarrow> (string \<rightharpoonup> organization) \<Rightarrow> string list \<Rightarrow> nat
   \<Rightarrow> string list \<times> (string \<rightharpoonup> role list) \<Rightarrow> (string list \<times> (string \<rightharpoonup> role list)) io" where
  "orgRolesLoop up orgs limitedOrgIds i st log =
     (if i < length limitedOrgIds \<and> i < 50 * 6 then
        (case fhirFetch up (orgBatchRequest (take 50 (drop i limitedOrgIds))) log of
           (Inl e, log') \<Rightarrow> (Inl e, log')
         | (Inr b, log') \<Rightarrow>
             (case foldE (collectOrgRole orgs) st (orNil (b_entry b)) of
                Inl e \<Rightarrow> (Inl e, log')
              | Inr st' \<Rightarrow> orgRolesLoop up orgs limitedOrgIds (i + 50) st' log'))
      else (Inr st, log))"
  by pat_completeness auto
termination
  by (relation "measure (\<lambda>(up, orgs, ids, i, st, log). length ids - i)") auto

declare orgRolesLoop.simps [simp del]

definition practBatchRequest :: "string \<Rightarrow> string list \<Rightarrow> request" where
  "practBatchRequest qualCode batch =
     Search ''Practitioner''
       (psSet ''_count'' ''200''
         (psSet ''qualification-code'' qualCode (psSet ''_id'' (join '','' batch) [])))"

function matchedLoop ::
  "upstream \<Rightarrow> string \<Rightarrow> string list \<Rightarrow> nat \<Rightarrow> practitioner list \<Rightarrow> practitioner list io" where
  "matchedLoop up qualCode pidArray i matched log =
     (if i < length pidArray \<and> i < 50 * 5 then
        (case fhirFetch up (practBatchRequest qualCode (take 50 (drop i pidArray))) log of
           (Inl e, log') \<Rightarrow> (Inl e, log')
         | (Inr b, log') \<Rightarrow>
             matchedLoop up qualCode pidArray (i + 50)
               (matched @ map asPractitioner (orNil (b_entry b))) log')
      else (Inr matched, log))"
  by pat_completeness auto
termination
  by (relation "measure (\<lambda>(up, q, ids, i, m, log). length ids - i)") auto

declare matchedLoop.simps [simp del]

definition searchBySpecialtyAndCity ::
  "upstream \<Rightarrow> string \<Rightarrow> string \<Rightarrow> jsnum \<Rightarrow> response io" where
  "searchBySpecialtyAndCity up qualCode city count =
     bindIO (fhirFetch up (organizationQuery city)) (\<lambda>orgBundle.
       if noEntries orgBundle
       then retIO (envelopeOf [] None (Some (noStructureMessage city)) None)
       else bindIO (if truthy (nextLink orgBundle)
                    then bindIO (fhirFetch up (Follow (orEmpty (nextLink orgBundle))))
                           (\<lambda>nb. retIO (orNil (b_entry orgBundle) @ orNil (b_entry nb)))
                    else retIO (orNil (b_entry orgBundle))) (\<lambda>allOrgEntries.
         (let (orgs, orgIds) = orgIndex allOrgEntries in
          bindIO (orgRolesLoop up orgs (take (50 * 6) orgIds) 0 ([], Map.empty))
            (\<lambda>(practitionerIds, rolesByPractitioner).
              if practitionerIds = [] then retIO (envelopeOf [] None None None)
              else bindIO (matchedLoop up qualCode practitionerIds 0 []) (\<lambda>matched.
                retIO (envelopeOf
                         (sliceTo (map (withRoles rolesByPractitioner) matched) count)
                         None None None))))))"

subsubsection \<open>Name plans\<close>

text \<open>\<^verbatim>\<open>new URLSearchParams({...})\<close> lists the keys in the order written. The four
  plans of a name of two tokens or more, and the two of a single token (which send the
  name as typed, not its token).\<close>

definition practitionerQuery :: "(string \<times> string) list \<Rightarrow> request" where
  "practitionerQuery ps = Search ''Practitioner'' ps"

definition planFirstFamily :: "string list \<Rightarrow> (string \<times> string) list" where
  "planFirstFamily parts = [(''family'', parts ! 0), (''given'', join '' '' (drop 1 parts))]"

definition planLastFamily :: "string list \<Rightarrow> (string \<times> string) list" where
  "planLastFamily parts =
     [(''family'', parts ! (length parts - 1)), (''given'', join '' '' (butlast parts))]"

definition planFamilyOnly :: "string \<Rightarrow> (string \<times> string) list" where
  "planFamilyOnly family = [(''family'', family)]"

definition planWholeName :: "string \<Rightarrow> (string \<times> string) list" where
  "planWholeName name = [(''name'', name)]"

definition count200 :: "(string \<times> string) list" where
  "count200 = [(''_count'', ''200'')]"

text \<open>\<^verbatim>\<open>searchByName\<close>, the plans: each next plan is tried only on an empty
  bundle.\<close>

definition searchByName_bundle :: "upstream \<Rightarrow> string \<Rightarrow> fhir_bundle io" where
  "searchByName_bundle up name =
     (let parts = split_ws (trim name) in
      if 2 \<le> length parts then
        bindIO (fhirFetch up (practitionerQuery (planFirstFamily parts @ count200))) (\<lambda>b1.
        bindIO (if noEntries b1
                then fhirFetch up (practitionerQuery (planLastFamily parts @ count200))
                else retIO b1) (\<lambda>b2.
        if noEntries b2
        then fhirFetch up (practitionerQuery (planFamilyOnly (parts ! 0) @ count200))
        else retIO b2))
      else
        bindIO (fhirFetch up (practitionerQuery (planFamilyOnly name @ count200))) (\<lambda>b1.
        if noEntries b1
        then fhirFetch up (practitionerQuery (planWholeName name @ count200))
        else retIO b1))"

definition refineMessage :: "int \<Rightarrow> string" where
  "refineMessage tf =
     numToString (Num tf) @ '' r'' @ e_acute @ ''sultats au total '' @ em_dash
     @ '' affinez votre recherche (ville, sp'' @ e_acute @ ''cialit'' @ e_acute
     @ '') pour des r'' @ e_acute @ ''sultats plus pr'' @ e_acute @ ''cis''"

definition searchByName ::
  "upstream \<Rightarrow> string \<Rightarrow> string \<Rightarrow> string \<Rightarrow> jsnum \<Rightarrow> response io" where
  "searchByName up name city specialty count =
     bindIO (searchByName_bundle up name) (\<lambda>b.
       if noEntries b then retIO (envelopeOf [] (Some (totalOr0 b)) None None)
       else
         (let needsPostFilter = (city \<noteq> [] \<or> specialty \<noteq> []) in
          bindIO (if needsPostFilter
                     \<and> (case b_total b of None \<Rightarrow> False
                         | Some t \<Rightarrow> int (length (orNil (b_entry b))) < t)
                     \<and> truthy (nextLink b)
                  then bindIO (fhirFetch up (Follow (orEmpty (nextLink b))))
                         (\<lambda>page2. retIO (orNil (b_entry b) @ orNil (b_entry page2)))
                  else retIO (orNil (b_entry b))) (\<lambda>allEntries.
          bindIO (resolveRoles up allEntries) (\<lambda>merged.
          bindIO (liftE (filterByCity merged city)) (\<lambda>inCity.
          bindIO (liftE (filterBySpecialty inCity specialty)) (\<lambda>filtered.
            (let tf = totalOr0 b; rs = sliceTo filtered count in
             retIO (envelopeOf rs (Some tf)
                      (if 200 < tf \<and> \<not> needsPostFilter
                       then Some (refineMessage tf) else None)
                      (Some (if needsPostFilter then None else orNull (nextLink b)))))))))))"

text \<open>The plans of the revision that keeps the bundle with the most entries: every
  plan is fetched in turn; a family and given plan with entries is taken at once, and
  a family plan with entries ends the loop only for a single token.\<close>

definition strategies_p002 :: "string \<Rightarrow> (string \<times> string) list list" where
  "strategies_p002 name =
     (let parts = split_ws (trim name) in
      if 2 \<le> length parts
      then [planFirstFamily parts, planLastFamily parts, planFamilyOnly (parts ! 0),
            planWholeName name]
      else [planFamilyOnly name, planWholeName name])"

definition hasKey :: "string \<Rightarrow> (string \<times> string) list \<Rightarrow> bool" where
  "hasKey k strategy = truthy (map_of strategy k)"

definition strategyRequest_p002 :: "(string \<times> string) list \<Rightarrow> request" where
  "strategyRequest_p002 strategy =
     practitionerQuery
       (psSet ''_count'' ''200'' (foldl (\<lambda>p kv. psSet (fst kv) (snd kv) p) [] strategy))"

fun strategyLoop_p002 ::
  "upstream \<Rightarrow> nat \<Rightarrow> (string \<times> string) list list \<Rightarrow> fhir_bundle option \<times> nat
   \<Rightarrow> fhir_bundle option io" where
  "strategyLoop_p002 up nparts [] best log = (Inr (fst best), log)"
| "strategyLoop_p002 up nparts (strategy # rest) best log =
     (case fhirFetch up (strategyRequest_p002 strategy) log of
        (Inl e, log') \<Rightarrow> (Inl e, log')
      | (Inr b, log') \<Rightarrow>
          (let entryCount = length (orNil (b_entry b)) in
           if 0 < entryCount \<and> hasKey ''family'' strategy \<and> hasKey ''given'' strategy
           then (Inr (Some b), log')
           else (let best' = (if snd best < entryCount then (Some b, entryCount) else best) in
                 if 0 < entryCount \<and> hasKey ''family'' strategy \<and> \<not> hasKey ''given'' strategy
                    \<and> nparts = 1
                 then (Inr (fst best'), log')
                 else strategyLoop_p002 up nparts rest best' log')))"

definition searchByName_bundle_p002 :: "upstream \<Rightarrow> string \<Rightarrow> fhir_bundle option io" where
  "searchByName_bundle_p002 up name =
     strategyLoop_p002 up (length (split_ws (trim name))) (strategies_p002 name) (None, 0)"

subsubsection \<open>Qualification code\<close>

definition qualificationBundle :: "upstream \<Rightarrow> string \<Rightarrow> string \<Rightarrow> fhir_bundle io" where
  "qualificationBundle up code name =
     (let parts = (if name \<noteq> [] then split_ws (trim name) else []);
          qc = [(''qualification-code'', code)] in
      if 2 \<le> length parts then
        bindIO (fhirFetch up (practitionerQuery (qc @ planFirstFamily parts @ count200))) (\<lambda>b1.
        if noEntries b1
        then fhirFetch up (practitionerQuery (qc @ planLastFamily parts @ count200))
        else retIO b1)
      else if length parts = 1 then
        bindIO (fhirFetch up (practitionerQuery (qc @ planFamilyOnly name @ count200))) (\<lambda>b1.
        if noEntries b1
        then fhirFetch up (practitionerQuery (qc @ planWholeName name @ count200))
        else retIO b1)
      else fhirFetch up (practitionerQuery (qc @ count200)))"

definition searchByQualificationCode ::
  "upstream \<Rightarrow> string \<Rightarrow> string \<Rightarrow> string \<Rightarrow> jsnum \<Rightarrow> response io" where
  "searchByQualificationCode up code name city count =
     (if city \<noteq> [] \<and> name = [] then searchBySpecialtyAndCity up code city count
      else bindIO (qualificationBundle up code name) (\<lambda>b.
        if noEntries b then retIO (envelopeOf [] (Some (totalOr0 b)) None (Some None))
        else bindIO (resolveRoles up (orNil (b_entry b))) (\<lambda>merged.
          bindIO (liftE (filterByCity merged city)) (\<lambda>filtered.
            retIO (envelopeOf filtered (Some (totalOr0 b)) None
                     (Some (orNull (nextLink b))))))))"

subsubsection \<open>Role filters\<close>

text \<open>\<^verbatim>\<open>practByRoles\<close> is enumerated by \<^verbatim>\<open>Object.entries\<close>, so its own
  properties are kept as a list in the order of their creation.
  \<^verbatim>\<open>if (!practByRoles[pid]) practByRoles[pid] = []; practByRoles[pid].push(role)\<close>:
  as in the merge, the call of \<^verbatim>\<open>push\<close> throws under a name of the prototype.\<close>

fun pushAssoc :: "(string \<times> role list) list \<Rightarrow> string \<Rightarrow> role \<Rightarrow> (string \<times> role list) list" where
  "pushAssoc [] k rl = [(k, [rl])]"
| "pushAssoc (kv # kvs) k rl =
     (if fst kv = k then (k, snd kv @ [rl]) # kvs else kv # pushAssoc kvs k rl)"

definition pushEntry ::
  "(string \<times> role list) list \<Rightarrow> string \<Rightarrow> role \<Rightarrow> error + (string \<times> role list) list" where
  "pushEntry kvs k rl =
     (case getProp (map_of kvs) k of
        Some (Inherited _) \<Rightarrow> Inl (NotAFunction ''practByRoles[pid].push'')
      | _ \<Rightarrow> Inr (pushAssoc kvs k rl))"

text \<open>\<^verbatim>\<open>Object.entries\<close> lists the own properties whose name is an array index (the
  decimal form of an integer from 0 to \<open>2^32 - 2\<close>) first, in ascending order, and
  then the others in the order of their creation.\<close>

definition isArrayIndex :: "string \<Rightarrow> bool" where
  "isArrayIndex k =
     (k \<noteq> [] \<and> list_all isDigit k \<and> (hd k \<noteq> CHR ''0'' \<or> length k = 1)
      \<and> digitsVal k \<le> 4294967294)"

definition objectEntries :: "(string \<times> 'v) list \<Rightarrow> (string \<times> 'v) list" where
  "objectEntries kvs =
     sort_key (\<lambda>kv. digitsVal (fst kv)) (filter (\<lambda>kv. isArrayIndex (fst kv)) kvs)
     @ filter (\<lambda>kv. \<not> isArrayIndex (fst kv)) kvs"

record separated =
  s_roles :: "role list"
  s_practitioners :: "string \<rightharpoonup> practitioner"
  s_organizations :: "string \<rightharpoonup> organization"

fun separate :: "separated \<Rightarrow> resource \<Rightarrow> separated" where
  "separate acc (PractitionerRoleRes r) = acc\<lparr>s_roles := s_roles acc @ [parsePractitionerRole r]\<rparr>"
| "separate acc (PractitionerRes r) =
     acc\<lparr>s_practitioners := (s_practitioners acc)(rp_id r \<mapsto> parsePractitioner r)\<rparr>"
| "separate acc (OrganizationRes r) =
     acc\<lparr>s_organizations := (s_organizations acc)(ro_id r \<mapsto> parseOrganization r)\<rparr>"

definition synthesized :: "string \<Rightarrow> practitioner" where
  "synthesized pid =
     \<lparr>p_id = pid, p_rpps = None, p_identifiers = [], p_lastName = [], p_firstName = [],
      p_prefix = None, p_suffix = None, p_qualifications = [], p_active = None\<rparr>"

text \<open>\<^verbatim>\<open>practitioners[pid] || {id: pid, ...}\<close> for an own key \<^verbatim>\<open>pid\<close> of
  \<^verbatim>\<open>practByRoles\<close>: such a key is no name of the prototype (lemma
  \<open>groupByPractitioner_keys\<close>), so the read gives an own property or nothing.\<close>

definition groupByPractitioner ::
  "(string \<rightharpoonup> organization) \<Rightarrow> role list \<Rightarrow> error + (string \<times> role list) list" where
  "groupByPractitioner orgs rls =
     foldE (\<lambda>practByRoles rl.
              pushEntry practByRoles (practitionerId rl) (attachOrganization orgs rl))
           [] rls"

definition searchByRoleFilters ::
  "upstream \<Rightarrow> string \<Rightarrow> string \<Rightarrow> jsnum \<Rightarrow> response io" where
  "searchByRoleFilters up city specialty count =
     (let p0 = psSet ''_include'' ''PractitionerRole:organization''
                 (psSet ''_include'' ''PractitionerRole:practitioner''
                   (psSet ''_count'' (numToString count) []));
          fhirParams = (if specialty \<noteq> [] then psSet ''role'' specialty p0 else p0) in
      bindIO (fhirFetch up (Search ''PractitionerRole'' fhirParams)) (\<lambda>b.
        if noEntries b then retIO (envelopeOf [] None None None)
        else
          (let sp = foldl separate
                      \<lparr>s_roles = [], s_practitioners = Map.empty, s_organizations = Map.empty\<rparr>
                      (orNil (b_entry b))
           in bindIO (liftE (groupByPractitioner (s_organizations sp) (s_roles sp)))
                (\<lambda>practByRoles.
                (let rs = map (\<lambda>(pid, rls).
                            practitioner.extend
                              (case s_practitioners sp pid of None \<Rightarrow> synthesized pid
                               | Some pr \<Rightarrow> pr)
                              (merged.fields (Value rls))) (objectEntries practByRoles)
                 in bindIO (liftE (filterByCity rs city)) (\<lambda>inCity.
                    bindIO (liftE (filterBySpecialty inCity specialty)) (\<lambda>filtered.
                      retIO (envelopeOf filtered (Some (totalOr0 b)) None None))))))))"

subsection \<open>The router\<close>

record params =
  pm_next :: "string option"
  pm_name :: "string option"
  pm_city :: "string option"
  pm_specialty :: "string option"
  pm_specialty_code :: "string option"
  pm_rpps :: "string option"
  pm_count :: "string option"

text \<open>\<^verbatim>\<open>Math.min(parseInt(params.get('count') || '200', 10), 500)\<close>.\<close>

definition pageSize :: "params \<Rightarrow> jsnum" where
  "pageSize ps = mathMin (parseInt10 (orEmpty (orElse (pm_count ps) (Some ''200'')))) (Num 500)"

definition rejection :: response where
  "rejection =
     jsonResponse (ErrorBody (''Remplis au moins un crit'' @ [CHR 0xC3, CHR 0xA8]
                              @ ''re de recherche'')) 400"

definition handleSearch :: "upstream \<Rightarrow> params \<Rightarrow> response io" where
  "handleSearch up ps =
     (if truthy (pm_next ps) then handleLoadMore up (orEmpty (pm_next ps))
      else
        (let name = orEmpty (pm_name ps);
             city = orEmpty (pm_city ps);
             specialty = orEmpty (pm_specialty ps);
             specialtyCode = orEmpty (pm_specialty_code ps);
             rpps = orEmpty (pm_rpps ps);
             count = pageSize ps
         in if rpps \<noteq> [] then searchByRpps up rpps
            else if specialtyCode \<noteq> [] then searchByQualificationCode up specialtyCode name city count
            else if name \<noteq> [] then searchByName up name city specialty count
            else if city \<noteq> [] then searchByRoleFilters up city specialty count
            else retIO rejection))"

definition errorMessage :: "error \<Rightarrow> string" where
  "errorMessage e =
     (case e of
        FhirApiError st txt \<Rightarrow> ''FHIR API '' @ showNat st @ '': '' @ txt
      | TypeError \<Rightarrow> ''Cannot read properties of undefined (reading 'toLowerCase')''
      | NotAFunction callee \<Rightarrow> callee @ '' is not a function'')"

definition onRequest :: "upstream \<Rightarrow> string \<Rightarrow> params \<Rightarrow> response \<times> request list" where
  "onRequest up method ps =
     (if method = ''OPTIONS'' then (\<lparr>status = 200, body = NoBody\<rparr>, [])
      else (case handleSearch up ps [] of
              (Inl e, log) \<Rightarrow> (jsonResponse (ErrorBody (errorMessage e)) 500, log)
            | (Inr r, log) \<Rightarrow> (r, log)))"

subsection \<open>The router as the specification words it\<close>

text \<open>The precedence list of the specification: the first field that is present
  selects the strategy, and none selects the rejection. A field is present when the
  query string gives it a non-empty value.\<close>

datatype strategy =
  Resume | IdentifierLookup | QualificationLookup | NameLookup | RoleLookup | Reject

definition spec_precedence :: "((params \<Rightarrow> string option) \<times> strategy) list" where
  "spec_precedence =
     [(pm_next, Resume), (pm_rpps, IdentifierLookup),
      (pm_specialty_code, QualificationLookup), (pm_name, NameLookup),
      (pm_city, RoleLookup)]"

definition spec_route :: "params \<Rightarrow> strategy" where
  "spec_route ps = (case find (\<lambda>(field, s). truthy (field ps)) spec_precedence of
                      None \<Rightarrow> Reject | Some (field, s) \<Rightarrow> s)"

fun runStrategy :: "upstream \<Rightarrow> params \<Rightarrow> strategy \<Rightarrow> response io" where
  "runStrategy up ps Resume = handleLoadMore up (orEmpty (pm_next ps))"
| "runStrategy up ps IdentifierLookup = searchByRpps up (orEmpty (pm_rpps ps))"
| "runStrategy up ps QualificationLookup =
     searchByQualificationCode up (orEmpty (pm_specialty_code ps)) (orEmpty (pm_name ps))
       (orEmpty (pm_city ps)) (pageSize ps)"
| "runStrategy up ps NameLookup =
     searchByName up (orEmpty (pm_name ps)) (orEmpty (pm_city ps))
       (orEmpty (pm_specialty ps)) (pageSize ps)"
| "runStrategy up ps RoleLookup =
     searchByRoleFilters up (orEmpty (pm_city ps)) (orEmpty (pm_specialty ps)) (pageSize ps)"
| "runStrategy up ps Reject = (\<lambda>log. (Inr rejection, log))"

subsection \<open>The batch fetcher as the specification words it\<close>

text \<open>The identifiers cut into \<open>ceil(n / B)\<close> batches of at most \<open>B\<close>; the bundles
  that the upstream gives to a list of calls issued in order after the calls of
  \<open>log\<close>, up to the first failure; and a run of such calls that folds the bundles
  into a state and stops at the first failure.\<close>

definition ceilDiv :: "nat \<Rightarrow> nat \<Rightarrow> nat" where
  "ceilDiv n B = (n + (B - 1)) div B"

definition batchesOf :: "nat \<Rightarrow> 'a list \<Rightarrow> 'a list list" where
  "batchesOf B xs = map (\<lambda>k. take B (drop (B * k) xs)) [0..<ceilDiv (length xs) B]"

fun answers :: "upstream \<Rightarrow> request list \<Rightarrow> request list \<Rightarrow> fhir_bundle list" where
  "answers up log [] = []"
| "answers up log (r # rs) =
     (case up log r of HttpOk b \<Rightarrow> b # answers up (log @ [r]) rs | HttpError st txt \<Rightarrow> [])"

definition entriesOf :: "fhir_bundle list \<Rightarrow> resource list" where
  "entriesOf bs = concat (map (\<lambda>b. orNil (b_entry b)) bs)"

fun runBatches :: "upstream \<Rightarrow> ('s \<Rightarrow> fhir_bundle \<Rightarrow> 's) \<Rightarrow> request list \<Rightarrow> 's \<Rightarrow> 's io" where
  "runBatches up step [] st log = (Inr st, log)"
| "runBatches up step (r # rs) st log =
     (case fhirFetch up r log of
        (Inl e, log') \<Rightarrow> (Inl e, log')
      | (Inr b, log') \<Rightarrow> runBatches up step rs (step st b) log')"

definition startsFrom :: "nat \<Rightarrow> nat \<Rightarrow> nat \<Rightarrow> nat list" where
  "startsFrom B i m = map (\<lambda>k. i + B * k) [0..<ceilDiv (m - i) B]"

definition batchRequests ::
  "(string list \<Rightarrow> request) \<Rightarrow> nat \<Rightarrow> nat \<Rightarrow> nat \<Rightarrow> string list \<Rightarrow> request list" where
  "batchRequests mk B i m ids = map (\<lambda>j. mk (take B (drop j ids))) (startsFrom B i m)"

definition collectBundle :: "roles_result \<Rightarrow> fhir_bundle \<Rightarrow> roles_result" where
  "collectBundle = (\<lambda>acc b. foldl collectEntry acc (orNil (b_entry b)))"

definition collectMatched :: "practitioner list \<Rightarrow> fhir_bundle \<Rightarrow> practitioner list" where
  "collectMatched = (\<lambda>matched b. matched @ map asPractitioner (orNil (b_entry b)))"

fun roleEntries :: "resource list \<Rightarrow> raw_role list" where
  "roleEntries [] = []"
| "roleEntries (PractitionerRoleRes r # es) = r # roleEntries es"
| "roleEntries (e # es) = roleEntries es"

fun orgEntries :: "resource list \<Rightarrow> raw_organization list" where
  "orgEntries [] = []"
| "orgEntries (OrganizationRes r # es) = r # orgEntries es"
| "orgEntries (e # es) = orgEntries es"

definition noRoles :: roles_result where
  "noRoles = \<lparr>practitionerRoles = [], organizations = Map.empty\<rparr>"

subsection \<open>The name plans as the specification words them\<close>

text \<open>The plans attempted out of a list of plans: each plan is fetched in turn, after
  the calls made before it; the chain ends with a plan whose call fails, or whose
  bundle has an entry when the plan is one that stops the chain.\<close>

fun attempted ::
  "((string \<times> string) list \<Rightarrow> request) \<Rightarrow> ((string \<times> string) list \<Rightarrow> bool) \<Rightarrow> upstream
   \<Rightarrow> request list \<Rightarrow> (string \<times> string) list list \<Rightarrow> (string \<times> string) list list" where
  "attempted mk stops up log [] = []"
| "attempted mk stops up log (plan # plans) =
     plan # (case up log (mk plan) of
               HttpError c msg \<Rightarrow> []
             | HttpOk b \<Rightarrow> if \<not> noEntries b \<and> stops plan then []
                          else attempted mk stops up (log @ [mk plan]) plans)"

definition planRequest :: "(string \<times> string) list \<Rightarrow> request" where
  "planRequest plan = practitionerQuery (plan @ count200)"

text \<open>The fixed order of the four plans (two for a single token).\<close>

definition fixedOrder :: "string \<Rightarrow> (string \<times> string) list list" where
  "fixedOrder name =
     (if 2 \<le> length (split_ws (trim name))
      then [planFirstFamily (split_ws (trim name)), planLastFamily (split_ws (trim name)),
            planFamilyOnly (split_ws (trim name) ! 0), planWholeName name]
      else [planFamilyOnly name, planWholeName name])"

definition anyHit :: "(string \<times> string) list \<Rightarrow> bool" where
  "anyHit plan = True"

definition stops_p002 :: "nat \<Rightarrow> (string \<times> string) list \<Rightarrow> bool" where
  "stops_p002 nparts plan =
     (hasKey ''family'' plan \<and> (hasKey ''given'' plan \<or> nparts = 1))"

text \<open>The exception of the first call that fails, out of calls issued in order after
  the calls of \<open>log\<close>.\<close>

fun firstFailure :: "upstream \<Rightarrow> request list \<Rightarrow> request list \<Rightarrow> error option" where
  "firstFailure up log [] = None"
| "firstFailure up log (r # rs) =
     (case up log r of HttpOk b \<Rightarrow> firstFailure up (log @ [r]) rs
      | HttpError st msg \<Rightarrow> Some (FhirApiError st (take 200 msg)))"

text \<open>The bundle with the most entries: the first of the bundles whose number of
  entries is the largest, and none when no bundle has an entry.\<close>

definition entryCount :: "fhir_bundle \<Rightarrow> nat" where
  "entryCount b = length (orNil (b_entry b))"

definition maxCount :: "fhir_bundle list \<Rightarrow> nat" where
  "maxCount bs = foldr max (map entryCount bs) 0"

definition largestBundle :: "fhir_bundle list \<Rightarrow> fhir_bundle option" where
  "largestBundle bs =
     (if maxCount bs = 0 then None else find (\<lambda>b. entryCount b = maxCount bs) bs)"

text \<open>A plan with a family and a given name; a list of plans in which such plans come
  first.\<close>

definition familyGiven :: "(string \<times> string) list \<Rightarrow> bool" where
  "familyGiven plan = (hasKey ''family'' plan \<and> hasKey ''given'' plan)"

fun familyGivenFirst :: "(string \<times> string) list list \<Rightarrow> bool" where
  "familyGivenFirst [] = True"
| "familyGivenFirst (p # ps) =
     ((familyGiven p \<or> (\<forall>q\<in>set ps. \<not> familyGiven q)) \<and> familyGivenFirst ps)"

text \<open>The length of a UTF-8 sequence, from its first byte.\<close>

definition utf8Length :: "char \<Rightarrow> nat" where
  "utf8Length c = (let n = (of_char c :: nat) in
     if n < 0x80 then 1 else if n < 0xE0 then 2 else if n < 0xF0 then 3 else 4)"

subsection \<open>The roles of a practitioner\<close>

text \<open>The given roles whose practitioner id is not empty and is \<open>pid\<close>, in their
  order, each with its organization attached.\<close>

definition rolesOfPractitioner ::
  "(string \<rightharpoonup> organization) \<Rightarrow> role list \<Rightarrow> string \<Rightarrow> role list" where
  "rolesOfPractitioner orgs rls pid =
     map (attachOrganization orgs)
       (filter (\<lambda>r. practitionerId r \<noteq> [] \<and> practitionerId r = pid) rls)"

subsection \<open>The two orders of the post-filters\<close>

definition cityThenSpecialty :: "merged list \<Rightarrow> string \<Rightarrow> string \<Rightarrow> error + merged list" where
  "cityThenSpecialty rs city specialty =
     (case filterByCity rs city of Inl e \<Rightarrow> Inl e
      | Inr ys \<Rightarrow> filterBySpecialty ys specialty)"

definition specialtyThenCity :: "merged list \<Rightarrow> string \<Rightarrow> string \<Rightarrow> error + merged list" where
  "specialtyThenCity rs city specialty =
     (case filterBySpecialty rs specialty of Inl e \<Rightarrow> Inl e
      | Inr ys \<Rightarrow> filterByCity ys city)"

subsection \<open>Sample requests, resources and upstreams\<close>

definition noParams :: params where
  "noParams = \<lparr>pm_next = None, pm_name = None, pm_city = None, pm_specialty = None,
               pm_specialty_code = None, pm_rpps = None, pm_count = None\<rparr>"

definition foreignToken :: string where
  "foreignToken = ''https://evil.example/fhir/v2/Practitioner?page=2''"

definition lyonParams :: params where
  "lyonParams = noParams\<lparr>pm_specialty_code := Some ''SM26'', pm_city := Some ''Lyon''\<rparr>"

definition nanParams :: params where
  "nanParams = noParams\<lparr>pm_city := Some ''Lyon'', pm_count := Some ''abc''\<rparr>"

definition negativeCount :: params where
  "negativeCount = lyonParams\<lparr>pm_count := Some ''-1''\<rparr>"

definition cardioParams :: params where
  "cardioParams = noParams\<lparr>pm_name := Some ''Dupont'', pm_specialty := Some ''cardio''\<rparr>"

definition cardioCoding :: coding where
  "cardioCoding = \<lparr>c_system = None, c_code = Some ''SM04'', c_display = Some ''Cardiologie''\<rparr>"

text \<open>A coding that carries a system only: FHIR leaves \<^verbatim>\<open>code\<close> and \<^verbatim>\<open>display\<close>
  optional.\<close>

definition bareCoding :: coding where
  "bareCoding = \<lparr>c_system = Some ''urn:oid:1.2.250.1'', c_code = None, c_display = None\<rparr>"

definition rawRoleOf :: "string \<Rightarrow> string option \<Rightarrow> coding list \<Rightarrow> raw_role" where
  "rawRoleOf rid ref codings =
     \<lparr>rr_id = rid, rr_practitioner = Some \<lparr>ref_reference = ref\<rparr>, rr_organization = None,
      rr_specialty = Some [\<lparr>cc_coding = Some codings, cc_text = None\<rparr>],
      rr_telecom = None, rr_active = None\<rparr>"

definition rawOrg :: "string \<Rightarrow> string \<Rightarrow> raw_organization" where
  "rawOrg oid nm = \<lparr>ro_id = oid, ro_name = Some nm, ro_type = None, ro_address = None,
                    ro_telecom = None\<rparr>"

definition samplePractitioner :: practitioner where
  "samplePractitioner =
     parsePractitioner \<lparr>rp_id = ''p1'', rp_name = None, rp_identifier = None,
                        rp_qualification = None, rp_active = None\<rparr>"

definition sampleRole :: role where
  "sampleRole = parsePractitionerRole (rawRoleOf ''r1'' (Some ''Practitioner/p1'') [cardioCoding])"

definition orphanRole :: role where
  "orphanRole = parsePractitionerRole (rawRoleOf ''r0'' None [cardioCoding])"

text \<open>A practitioner and a role whose ids name a member of \<^verbatim>\<open>Object.prototype\<close>.\<close>

definition constructorPractitioner :: practitioner where
  "constructorPractitioner =
     parsePractitioner \<lparr>rp_id = ''constructor'', rp_name = None, rp_identifier = None,
                        rp_qualification = None, rp_active = None\<rparr>"

definition constructorRole :: role where
  "constructorRole =
     parsePractitionerRole (rawRoleOf ''r9'' (Some ''Practitioner/constructor'') [cardioCoding])"

definition bareRole :: role where
  "bareRole = parsePractitionerRole (rawRoleOf ''r2'' (Some ''Practitioner/p1'') [bareCoding])"

definition bareResults :: "merged list" where
  "bareResults = [withRoles [''p1'' \<mapsto> [bareRole] ] samplePractitioner]"

definition manyIds :: "nat \<Rightarrow> string list" where
  "manyIds n = map showNat [0..<n]"

text \<open>"Dupont Marie" typed with a no-break space (U+00A0) between the words.\<close>

definition dupontNbspMarie :: string where
  "dupontNbspMarie = ''Dupont'' @ [CHR 0xC2, CHR 0xA0] @ ''Marie''"

definition dupontMarie :: "(string \<times> string) list list" where
  "dupontMarie =
     [ [(''family'', ''Dupont''), (''given'', ''Marie'')],
      [(''family'', ''Marie''), (''given'', ''Dupont'')],
      [(''family'', ''Dupont'')],
      [(''name'', ''Dupont Marie'')] ]"

definition emptyBundle :: fhir_bundle where
  "emptyBundle = \<lparr>b_entry = None, b_total = None, b_link = None\<rparr>"

definition roleBundle :: "raw_role list \<Rightarrow> fhir_bundle" where
  "roleBundle rs = \<lparr>b_entry = Some (map PractitionerRoleRes rs), b_total = Some (int (length rs)),
                    b_link = None\<rparr>"

definition practitionerBundle :: "string list \<Rightarrow> fhir_bundle" where
  "practitionerBundle pids =
     \<lparr>b_entry = Some (map (\<lambda>i. PractitionerRes \<lparr>rp_id = i, rp_name = None,
                               rp_identifier = None, rp_qualification = None,
                               rp_active = None\<rparr>) pids),
      b_total = Some (int (length pids)), b_link = None\<rparr>"

definition silentUpstream :: upstream where
  "silentUpstream = (\<lambda>log req. HttpOk emptyBundle)"

definition everyoneUpstream :: upstream where
  "everyoneUpstream = (\<lambda>log req. HttpOk (practitionerBundle [''p1'']))"

text \<open>An upstream that answers every call with the same role.\<close>

definition sameRoleUpstream :: upstream where
  "sameRoleUpstream =
     (\<lambda>log req. HttpOk (roleBundle [rawRoleOf ''r1'' (Some ''Practitioner/p1'') [cardioCoding] ]))"

text \<open>An upstream whose bundle lists one organization id twice, under two names.\<close>

definition twoOrgUpstream :: upstream where
  "twoOrgUpstream =
     (\<lambda>log req. HttpOk
        \<lparr>b_entry = Some [PractitionerRoleRes (rawRoleOf ''r1'' (Some ''Practitioner/p1'')
                                               [cardioCoding]),
                         OrganizationRes (rawOrg ''o1'' ''Cabinet A''),
                         OrganizationRes (rawOrg ''o1'' ''Cabinet B'')],
         b_total = Some 1, b_link = None\<rparr>)"

text \<open>An upstream that finds one practitioner by family name alone and two by the
  unstructured name.\<close>

definition broadUpstream :: upstream where
  "broadUpstream =
     (\<lambda>log req. case req of
        Search kind ps \<Rightarrow>
          if kind = ''Practitioner'' \<and> map_of ps ''name'' \<noteq> None
          then HttpOk (practitionerBundle [''p1'', ''p2''])
          else if kind = ''Practitioner'' \<and> map_of ps ''family'' \<noteq> None
                  \<and> map_of ps ''given'' = None
          then HttpOk (practitionerBundle [''p1''])
          else HttpOk emptyBundle
      | Follow u \<Rightarrow> HttpOk emptyBundle)"

text \<open>An upstream with one organization in the city, three roles there for three
  practitioners, and the three practitioners holding the qualification.\<close>

definition lyonUpstream :: upstream where
  "lyonUpstream =
     (\<lambda>log req. case req of
        Search kind ps \<Rightarrow>
          if kind = ''Organization''
          then HttpOk \<lparr>b_entry = Some [OrganizationRes (rawOrg ''o1'' ''Cabinet A'')],
                       b_total = Some 1, b_link = None\<rparr>
          else if kind = ''PractitionerRole''
          then HttpOk (roleBundle [rawRoleOf ''r1'' (Some ''Practitioner/p1'') [cardioCoding],
                                   rawRoleOf ''r2'' (Some ''Practitioner/p2'') [cardioCoding],
                                   rawRoleOf ''r3'' (Some ''Practitioner/p3'') [cardioCoding] ])
          else HttpOk (practitionerBundle [''p1'', ''p2'', ''p3''])
      | Follow u \<Rightarrow> HttpOk emptyBundle)"

text \<open>An upstream with one practitioner whose only role has the bare coding.\<close>

definition bareUpstream :: upstream where
  "bareUpstream =
     (\<lambda>log req. case req of
        Search kind ps \<Rightarrow>
          if kind = ''PractitionerRole''
          then HttpOk (roleBundle [rawRoleOf ''r2'' (Some ''Practitioner/p1'') [bareCoding] ])
          else HttpOk (practitionerBundle [''p1''])
      | Follow u \<Rightarrow> HttpOk emptyBundle)"

definition resultIds :: "(error + response) \<times> request list \<Rightarrow> string list" where
  "resultIds out =
     (case fst out of Inl e \<Rightarrow> []
      | Inr r \<Rightarrow> (case body r of Envelope e \<Rightarrow> map p_id (results e) | _ \<Rightarrow> []))"


section \<open>Properties\<close>

subsection \<open>Router\<close>

lemma truthy_orEmpty: "truthy v \<longleftrightarrow> orEmpty v \<noteq> []"
  by (simp add: truthy_def orEmpty_def split: option.splits)

text \<open>
  C1. The handler runs exactly the strategy that the precedence list selects:
  continuation token, then national identifier, then qualification code, then name,
  then city, the first present field winning. When none of the five is present the
  answer is the validation error with status 400 and the list of remote calls is
  unchanged: no call is issued.
\<close>

theorem C1_router_precedence:
  "handleSearch up ps = runStrategy up ps (spec_route ps)
   \<and> (\<not> truthy (pm_next ps) \<and> \<not> truthy (pm_rpps ps) \<and> \<not> truthy (pm_specialty_code ps)
        \<and> \<not> truthy (pm_name ps) \<and> \<not> truthy (pm_city ps)
      \<longrightarrow> spec_route ps = Reject \<and> status rejection = 400
          \<and> handleSearch up ps log = (Inr rejection, log))"
  by (simp add: handleSearch_def spec_route_def spec_precedence_def Let_def truthy_orEmpty
                retIO_def jsonResponse_def rejection_def)

theorem C1_router_precedence_witness:
  "spec_route (noParams\<lparr>pm_specialty := Some ''cardio''\<rparr>) = Reject
   \<and> handleSearch silentUpstream (noParams\<lparr>pm_specialty := Some ''cardio''\<rparr>) []
       = (Inr rejection, [])
   \<and> spec_route (noParams\<lparr>pm_name := Some ''Dupont'', pm_rpps := Some ''123''\<rparr>)
       = IdentifierLookup"
proof -
  have "spec_route (noParams\<lparr>pm_name := Some ''Dupont'', pm_rpps := Some ''123''\<rparr>)
          = IdentifierLookup"
    by (simp add: spec_route_def spec_precedence_def noParams_def truthy_def)
  with C1_router_precedence[of silentUpstream "noParams\<lparr>pm_specialty := Some ''cardio''\<rparr>" "[]"]
  show ?thesis by (simp add: noParams_def truthy_def)
qed

text \<open>
  C8. A request whose continuation token is present and does not start with the upstream
  base URL gets the validation error with status 400, and the list of remote calls is
  unchanged: the token is not fetched. (An empty \<^verbatim>\<open>next\<close> value counts as no token.)
\<close>

theorem C8_foreign_token_rejected:
  assumes "pm_next ps = Some u" and "u \<noteq> []" and "\<not> startsWith u API_BASE"
  shows "handleSearch up ps log =
           (Inr \<lparr>status = 400, body = ErrorBody ''Invalid pagination URL''\<rparr>, log)"
  using assms
  by (simp add: handleSearch_def handleLoadMore_def truthy_def orEmpty_def retIO_def
                jsonResponse_def)

theorem C8_foreign_token_rejected_witness:
  "pm_next (noParams\<lparr>pm_next := Some foreignToken, pm_name := Some ''Dupont''\<rparr>)
     = Some foreignToken
   \<and> foreignToken \<noteq> [] \<and> \<not> startsWith foreignToken API_BASE
   \<and> handleSearch silentUpstream
         (noParams\<lparr>pm_next := Some foreignToken, pm_name := Some ''Dupont''\<rparr>) []
       = (Inr \<lparr>status = 400, body = ErrorBody ''Invalid pagination URL''\<rparr>, [])"
proof -
  have a: "pm_next (noParams\<lparr>pm_next := Some foreignToken, pm_name := Some ''Dupont''\<rparr>)
             = Some foreignToken" by simp
  have b: "foreignToken \<noteq> []" by (simp add: foreignToken_def)
  have c: "\<not> startsWith foreignToken API_BASE"
    by (simp add: startsWith_def API_BASE_def foreignToken_def)
  from C8_foreign_token_rejected[OF a b c, of silentUpstream "[]"] a b c
  show ?thesis by simp
qed

subsection \<open>Merge\<close>

lemma attach_practitionerId [simp]:
  "practitionerId (attachOrganization orgs rl) = practitionerId rl"
  by (simp add: attachOrganization_def)

lemma empty_not_inherited [simp]: "[] \<notin> set inheritedKeys"
  by (simp add: inheritedKeys_def)

text \<open>On an object that has no own property under a name of the prototype.\<close>

lemma pushRole_clean:
  assumes "\<forall>k\<in>set inheritedKeys. m k = None"
  shows "pushRole c m pid rl =
           (if pid \<in> set inheritedKeys then Inl (NotAFunction c)
            else Inr (m(pid \<mapsto> (case m pid of None \<Rightarrow> [] | Some l \<Rightarrow> l) @ [rl])))"
  using assms by (auto simp: pushRole_def getProp_def split: option.splits)

lemma rolesOfPractitioner_Cons:
  "rolesOfPractitioner orgs (a # rls) k =
     (if practitionerId a \<noteq> [] \<and> practitionerId a = k
      then attachOrganization orgs a # rolesOfPractitioner orgs rls k
      else rolesOfPractitioner orgs rls k)"
  by (simp add: rolesOfPractitioner_def)

lemma groupRoles_char:
  assumes "\<forall>k\<in>set inheritedKeys. m k = None"
  shows "groupRoles orgs rls m =
           (if \<exists>r\<in>set rls. practitionerId r \<in> set inheritedKeys
            then Inl (NotAFunction ''rolesByPractitioner[role.practitionerId].push'')
            else Inr (\<lambda>k. if rolesOfPractitioner orgs rls k = [] then m k
                          else Some ((case m k of None \<Rightarrow> [] | Some l \<Rightarrow> l)
                                     @ rolesOfPractitioner orgs rls k)))"
  using assms
proof (induction rls arbitrary: m)
  case Nil
  then show ?case by (simp add: rolesOfPractitioner_def)
next
  case (Cons a rls)
  show ?case
  proof (cases "practitionerId a = []")
    case True
    with Cons.IH[OF Cons.prems] show ?thesis
      by (simp add: rolesOfPractitioner_Cons cong: if_cong)
  next
    case ne: False
    show ?thesis
    proof (cases "practitionerId a \<in> set inheritedKeys")
      case True
      with ne show ?thesis by (simp add: pushRole_clean[OF Cons.prems])
    next
      case False
      let ?m' = "m(practitionerId a \<mapsto>
                    (case m (practitionerId a) of None \<Rightarrow> [] | Some l \<Rightarrow> l)
                    @ [attachOrganization orgs a])"
      have inv: "\<forall>k\<in>set inheritedKeys. ?m' k = None"
        using Cons.prems False by auto
      have step: "groupRoles orgs (a # rls) m = groupRoles orgs rls ?m'"
        using ne False by (simp add: pushRole_clean[OF Cons.prems])
      show ?thesis
      proof (cases "\<exists>r\<in>set rls. practitionerId r \<in> set inheritedKeys")
        case True
        then show ?thesis by (simp add: step Cons.IH[OF inv] del: groupRoles.simps)
      next
        case none: False
        have "(\<lambda>k. if rolesOfPractitioner orgs rls k = [] then ?m' k
                    else Some ((case ?m' k of None \<Rightarrow> [] | Some l \<Rightarrow> l)
                               @ rolesOfPractitioner orgs rls k))
              = (\<lambda>k. if rolesOfPractitioner orgs (a # rls) k = [] then m k
                      else Some ((case m k of None \<Rightarrow> [] | Some l \<Rightarrow> l)
                                 @ rolesOfPractitioner orgs (a # rls) k))"
          using ne by (intro ext) (simp add: rolesOfPractitioner_Cons)
        with none False show ?thesis
          by (simp add: step Cons.IH[OF inv] del: groupRoles.simps)
      qed
    qed
  qed
qed

text \<open>The merge, in full: it throws when a role has a practitioner id that names a
  member of the prototype; otherwise it returns, for each practitioner in order, the
  practitioner with the roles of its id, or with the member of the prototype that its
  id names.\<close>

lemma merge_char:
  "mergePractitionersAndRoles practitioners rls orgs =
     (if \<exists>r\<in>set rls. practitionerId r \<in> set inheritedKeys
      then Inl (NotAFunction ''rolesByPractitioner[role.practitionerId].push'')
      else Inr (map (\<lambda>p. practitioner.extend p
                           (merged.fields (if p_id p \<in> set inheritedKeys
                                           then Inherited (p_id p)
                                           else Value (rolesOfPractitioner orgs rls (p_id p)))))
                 practitioners))"
proof (cases "\<exists>r\<in>set rls. practitionerId r \<in> set inheritedKeys")
  case True
  then show ?thesis
    by (simp add: mergePractitionersAndRoles_def groupRoles_char)
next
  case False
  let ?g = "\<lambda>k. if rolesOfPractitioner orgs rls k = [] then None
                 else Some (rolesOfPractitioner orgs rls k)"
  have g: "groupRoles orgs rls Map.empty = Inr ?g"
    using False by (simp add: groupRoles_char cong: if_cong)
  have clean: "rolesOfPractitioner orgs rls k = []" if "k \<in> set inheritedKeys" for k
    using False that by (auto simp: rolesOfPractitioner_def filter_empty_conv)
  have "withRoles ?g p =
          practitioner.extend p
            (merged.fields (if p_id p \<in> set inheritedKeys then Inherited (p_id p)
                            else Value (rolesOfPractitioner orgs rls (p_id p))))" for p
    using clean[of "p_id p"] by (simp add: withRoles_def getProp_def)
  with False show ?thesis
    by (simp add: mergePractitionersAndRoles_def g)
qed

text \<open>
  C10. The merge is described for every list of practitioners, every list of roles and
  every organizations object. It throws a TypeError when a role has a practitioner id
  that names a member of \<^verbatim>\<open>Object.prototype\<close> (such as "constructor"): the read of
  \<^verbatim>\<open>rolesByPractitioner\<close> under that id gives the inherited member, on which
  \<^verbatim>\<open>push\<close> is no function. Otherwise it returns one result for each practitioner, in
  order; the \<^verbatim>\<open>roles\<close> of a result whose id names a member of the prototype is that
  member (no array), and the \<^verbatim>\<open>roles\<close> of any other result is the array of the given
  roles, each with its organization attached, whose practitioner id is not empty and is
  the id of the result, in their order. Hence, whenever the merge returns: each role of
  a role array of a result carries a non-empty practitioner id equal to the id of the
  result, and is one of the given roles; a role whose practitioner id is empty appears
  in no result; and since the parser gives the empty id to a role whose raw reference is
  absent or empty, a role of a result that came out of the parser had a non-empty raw
  reference.
\<close>

theorem C10_merge_roles_belong:
  "((\<exists>r\<in>set rls. practitionerId r \<in> set inheritedKeys) \<longrightarrow>
      mergePractitionersAndRoles practitioners rls orgs
        = Inl (NotAFunction ''rolesByPractitioner[role.practitionerId].push''))
   \<and> ((\<forall>r\<in>set rls. practitionerId r \<notin> set inheritedKeys) \<longrightarrow>
        (\<exists>ms. mergePractitionersAndRoles practitioners rls orgs = Inr ms
           \<and> map practitioner.truncate ms = practitioners
           \<and> (\<forall>m\<in>set ms. roles m =
                 (if p_id m \<in> set inheritedKeys then Inherited (p_id m)
                  else Value (rolesOfPractitioner orgs rls (p_id m))))))
   \<and> (\<forall>ms m l rl. mergePractitionersAndRoles practitioners rls orgs = Inr ms
          \<and> m \<in> set ms \<and> roles m = Value l \<and> rl \<in> set l \<longrightarrow>
        practitionerId rl \<noteq> [] \<and> practitionerId rl = p_id m
        \<and> (\<exists>r. r \<in> set rls \<and> practitionerId r \<noteq> [] \<and> rl = attachOrganization orgs r)
        \<and> (\<forall>raw. rl = attachOrganization orgs (parsePractitionerRole raw)
               \<longrightarrow> refOf (rr_practitioner raw) \<noteq> []))"
proof -
  have throws: "(\<exists>r\<in>set rls. practitionerId r \<in> set inheritedKeys) \<longrightarrow>
      mergePractitionersAndRoles practitioners rls orgs
        = Inl (NotAFunction ''rolesByPractitioner[role.practitionerId].push'')"
    by (simp add: merge_char)
  have returns: "(\<forall>r\<in>set rls. practitionerId r \<notin> set inheritedKeys) \<longrightarrow>
        (\<exists>ms. mergePractitionersAndRoles practitioners rls orgs = Inr ms
           \<and> map practitioner.truncate ms = practitioners
           \<and> (\<forall>m\<in>set ms. roles m =
                 (if p_id m \<in> set inheritedKeys then Inherited (p_id m)
                  else Value (rolesOfPractitioner orgs rls (p_id m)))))"
    by (auto simp: merge_char practitioner.defs merged.defs comp_def map_idI)
  have belong: "\<forall>ms m l rl. mergePractitionersAndRoles practitioners rls orgs = Inr ms
          \<and> m \<in> set ms \<and> roles m = Value l \<and> rl \<in> set l \<longrightarrow>
        practitionerId rl \<noteq> [] \<and> practitionerId rl = p_id m
        \<and> (\<exists>r. r \<in> set rls \<and> practitionerId r \<noteq> [] \<and> rl = attachOrganization orgs r)
        \<and> (\<forall>raw. rl = attachOrganization orgs (parsePractitionerRole raw)
               \<longrightarrow> refOf (rr_practitioner raw) \<noteq> [])"
  proof (intro allI impI)
  fix ms m l rl
  assume a: "mergePractitionersAndRoles practitioners rls orgs = Inr ms
          \<and> m \<in> set ms \<and> roles m = Value l \<and> rl \<in> set l"
  then have "rl \<in> set (rolesOfPractitioner orgs rls (p_id m))"
    by (auto simp: merge_char practitioner.defs merged.defs split: if_splits)
  then obtain r where r: "r \<in> set rls" "practitionerId r \<noteq> []" "practitionerId r = p_id m"
      "rl = attachOrganization orgs r"
    by (auto simp: rolesOfPractitioner_def)
  then have main: "practitionerId rl \<noteq> []" "practitionerId rl = p_id m" by simp_all
  have raw: "\<forall>raw. rl = attachOrganization orgs (parsePractitionerRole raw)
                \<longrightarrow> refOf (rr_practitioner raw) \<noteq> []"
  proof (intro allI impI)
    fix raw assume "rl = attachOrganization orgs (parsePractitionerRole raw)"
    with main(1) have "practitionerId (parsePractitionerRole raw) \<noteq> []" by simp
    then show "refOf (rr_practitioner raw) \<noteq> []"
      by (auto simp: parsePractitionerRole_def Let_def)
  qed
  from main r raw show "practitionerId rl \<noteq> [] \<and> practitionerId rl = p_id m
        \<and> (\<exists>r. r \<in> set rls \<and> practitionerId r \<noteq> [] \<and> rl = attachOrganization orgs r)
        \<and> (\<forall>raw. rl = attachOrganization orgs (parsePractitionerRole raw)
               \<longrightarrow> refOf (rr_practitioner raw) \<noteq> [])"
    by blast
  qed
  show ?thesis by (rule conjI[OF throws conjI[OF returns belong]])
qed

lemma truncate_id [simp]: "p_id (practitioner.truncate m) = p_id m"
  by (simp add: practitioner.defs)

lemma merged_surjective:
  "(m :: merged) = practitioner.extend (practitioner.truncate m) (merged.fields (roles m))"
  by (cases m) (simp add: practitioner.defs merged.defs)

lemma sample_ids:
  "practitionerId orphanRole = []" "practitionerId sampleRole = ''p1''"
  "practitionerId constructorRole = ''constructor''"
  "p_id samplePractitioner = ''p1''" "p_id constructorPractitioner = ''constructor''"
  by (simp_all add: orphanRole_def sampleRole_def constructorRole_def rawRoleOf_def
        parsePractitionerRole_def refOf_def orEmpty_def orElse_def truthy_def startsWith_def
        samplePractitioner_def constructorPractitioner_def parsePractitioner_def Let_def)

theorem C10_merge_roles_belong_witness:
  "practitionerId orphanRole = [] \<and> practitionerId sampleRole = ''p1''
   \<and> mergePractitionersAndRoles [samplePractitioner, constructorPractitioner]
        [orphanRole, sampleRole] Map.empty
      = Inr [practitioner.extend samplePractitioner (merged.fields (Value [sampleRole])),
             practitioner.extend constructorPractitioner
               (merged.fields (Inherited ''constructor''))]
   \<and> p_id (practitioner.extend samplePractitioner (merged.fields (Value [sampleRole]))) = ''p1''
   \<and> refOf (rr_practitioner (rawRoleOf ''r1'' (Some ''Practitioner/p1'') [cardioCoding])) \<noteq> []
   \<and> practitionerId constructorRole = ''constructor''
   \<and> mergePractitionersAndRoles [samplePractitioner] [sampleRole, constructorRole] Map.empty
      = Inl (NotAFunction ''rolesByPractitioner[role.practitionerId].push'')"
proof -
  let ?ps = "[samplePractitioner, constructorPractitioner]"
  let ?rs = "[orphanRole, sampleRole]"
  let ?m1 = "practitioner.extend samplePractitioner (merged.fields (Value [sampleRole]))"
  let ?m2 = "practitioner.extend constructorPractitioner
               (merged.fields (Inherited ''constructor''))"
  have ik: "''p1'' \<notin> set inheritedKeys" "''constructor'' \<in> set inheritedKeys"
    by (simp_all add: inheritedKeys_def)
  have at: "attachOrganization Map.empty sampleRole = sampleRole"
    by (simp add: attachOrganization_def getProp_def sampleRole_def rawRoleOf_def
          parsePractitionerRole_def refOf_def orEmpty_def orElse_def truthy_def)
  have clean: "\<forall>r\<in>set ?rs. practitionerId r \<notin> set inheritedKeys"
    by (simp add: sample_ids ik)
  have bad: "\<exists>r\<in>set [sampleRole, constructorRole]. practitionerId r \<in> set inheritedKeys"
    by (simp add: sample_ids ik)
  note thm1 = C10_merge_roles_belong[of ?rs ?ps Map.empty]
  note thm2 = C10_merge_roles_belong[of "[sampleRole, constructorRole]" "[samplePractitioner]"
                Map.empty]
  from thm1[THEN conjunct2, THEN conjunct1, THEN mp, OF clean] obtain ms where ms0:
      "mergePractitionersAndRoles ?ps ?rs Map.empty = Inr ms
       \<and> map practitioner.truncate ms = ?ps
       \<and> (\<forall>m\<in>set ms. roles m =
            (if p_id m \<in> set inheritedKeys then Inherited (p_id m)
             else Value (rolesOfPractitioner Map.empty ?rs (p_id m))))" ..
  note ms = conjunct1[OF ms0] conjunct1[OF conjunct2[OF ms0]] conjunct2[OF conjunct2[OF ms0]]
  from ms(2) obtain m1 m2 where m12: "ms = [m1, m2]"
      "practitioner.truncate m1 = samplePractitioner"
      "practitioner.truncate m2 = constructorPractitioner"
    by (auto simp: map_eq_Cons_conv)
  have ids: "p_id m1 = ''p1''" "p_id m2 = ''constructor''"
    using arg_cong[OF m12(2), of p_id] arg_cong[OF m12(3), of p_id]
    by (simp_all add: sample_ids)
  have r1: "roles m1 = Value [sampleRole]"
    using ms(3) m12(1) ids ik by (simp add: rolesOfPractitioner_def sample_ids at)
  have r2: "roles m2 = Inherited ''constructor''"
    using ms(3) m12(1) ids ik by simp
  have e1: "m1 = ?m1"
    using merged_surjective[of m1] by (simp only: m12(2) r1)
  have e2: "m2 = ?m2"
    using merged_surjective[of m2] by (simp only: m12(3) r2)
  have res: "mergePractitionersAndRoles ?ps ?rs Map.empty = Inr [?m1, ?m2]"
    using ms(1) m12(1) e1 e2 by simp
  have pre: "mergePractitionersAndRoles ?ps ?rs Map.empty = Inr [?m1, ?m2]
          \<and> ?m1 \<in> set [?m1, ?m2]
          \<and> roles ?m1 = Value [sampleRole] \<and> sampleRole \<in> set [sampleRole]"
    using res by (simp add: merged.defs practitioner.defs)
  note belongs = thm1[THEN conjunct2, THEN conjunct2, THEN spec, THEN spec, THEN spec,
                      THEN spec, of "[?m1, ?m2]" ?m1 "[sampleRole]" sampleRole, THEN mp,
                      OF pre]
  from belongs[THEN conjunct2, THEN conjunct1] have p1: "p_id ?m1 = ''p1''"
    by (simp only: sample_ids)
  have "sampleRole = attachOrganization Map.empty
          (parsePractitionerRole (rawRoleOf ''r1'' (Some ''Practitioner/p1'') [cardioCoding]))"
    using at by (simp only: sampleRole_def)
  with belongs[THEN conjunct2, THEN conjunct2, THEN conjunct2, THEN spec,
               of "rawRoleOf ''r1'' (Some ''Practitioner/p1'') [cardioCoding]"]
  have ref: "refOf (rr_practitioner (rawRoleOf ''r1'' (Some ''Practitioner/p1'')
                  [cardioCoding])) \<noteq> []"
    by (rule mp)
  from thm2[THEN conjunct1, THEN mp, OF bad] have thr:
    "mergePractitionersAndRoles [samplePractitioner] [sampleRole, constructorRole] Map.empty
      = Inl (NotAFunction ''rolesByPractitioner[role.practitionerId].push'')"
    by simp
  from res p1 ref thr show ?thesis by (simp add: sample_ids)
qed

subsection \<open>Role filters: the keys of the grouping\<close>

lemma pushAssoc_keys: "fst ` set (pushAssoc kvs k rl) = insert k (fst ` set kvs)"
  by (induction kvs) auto

lemma pushEntry_keys:
  assumes "pushEntry kvs k rl = Inr kvs'" and "fst ` set kvs \<inter> set inheritedKeys = {}"
  shows "fst ` set kvs' \<inter> set inheritedKeys = {}"
proof -
  from assms(1) have k: "map_of kvs k \<noteq> None \<or> k \<notin> set inheritedKeys"
    and e: "kvs' = pushAssoc kvs k rl"
    by (auto simp: pushEntry_def getProp_def split: option.splits if_splits member.splits)
  from k have "k \<notin> set inheritedKeys"
  proof
    assume "map_of kvs k \<noteq> None"
    then have "k \<in> fst ` set kvs" by (simp add: map_of_eq_None_iff)
    with assms(2) show ?thesis by blast
  qed simp
  with assms(2) show ?thesis by (simp add: e pushAssoc_keys)
qed

lemma foldE_invariant:
  assumes "foldE f s xs = Inr s'" and "I s"
      and "\<And>s x s'. I s \<Longrightarrow> f s x = Inr s' \<Longrightarrow> I s'"
  shows "I s'"
  using assms(1,2)
proof (induction xs arbitrary: s)
  case Nil
  then show ?case by simp
next
  case (Cons x xs)
  from Cons.prems(1) obtain s1 where s1: "f s x = Inr s1" "foldE f s1 xs = Inr s'"
    by (cases "f s x") simp_all
  from assms(3)[OF Cons.prems(2) s1(1)] have "I s1" .
  from Cons.IH[OF s1(2) this] show ?case .
qed

text \<open>No own key of \<^verbatim>\<open>practByRoles\<close> names a member of the prototype.\<close>

lemma groupByPractitioner_keys:
  assumes "groupByPractitioner orgs rls = Inr practByRoles"
      and "k \<in> fst ` set (objectEntries practByRoles)"
  shows "k \<notin> set inheritedKeys"
proof -
  have "fst ` set practByRoles \<inter> set inheritedKeys = {}"
    using assms(1) unfolding groupByPractitioner_def
    by (rule foldE_invariant[where I="\<lambda>kvs. fst ` set kvs \<inter> set inheritedKeys = {}"])
       (simp, rule pushEntry_keys)
  moreover from assms(2) have "k \<in> fst ` set practByRoles"
    by (auto simp: objectEntries_def)
  ultimately show ?thesis by blast
qed

subsection \<open>Reverse lookup: no organization in the city\<close>

lemma fhirFetch_ok:
  "up log req = HttpOk b \<Longrightarrow> fhirFetch up req log = (Inr b, log @ [req])"
  by (simp add: fhirFetch_def)

text \<open>
  C7. A request with a qualification code and a city, and neither continuation token,
  national identifier nor name, goes to the reverse lookup; when the upstream answers
  the organization query of phase 1 with a bundle without entries, the response is the
  envelope with status 200, total 0, no result, no upstream total, and the message
  "Aucune structure trouvee a" (with its two accents, in UTF-8) followed by the city,
  after that single remote call.
\<close>

theorem C7_no_facility_message:
  assumes "\<not> truthy (pm_next ps)" and "\<not> truthy (pm_rpps ps)"
      and "truthy (pm_specialty_code ps)" and "\<not> truthy (pm_name ps)"
      and "pm_city ps = Some city" and "city \<noteq> []"
      and "up log (organizationQuery city) = HttpOk b" and "noEntries b"
  shows "handleSearch up ps log =
           (Inr \<lparr>status = 200,
                 body = Envelope \<lparr>total = 0, totalFhir = None, results = [],
                                   message = Some (''Aucune structure trouv''
                                     @ [CHR 0xC3, CHR 0xA9] @ ''e '' @ [CHR 0xC3, CHR 0xA0]
                                     @ '' '' @ city),
                                   nextPage = None\<rparr>\<rparr>,
            log @ [organizationQuery city])"
proof -
  from assms(1-6) have "handleSearch up ps log =
      searchBySpecialtyAndCity up (orEmpty (pm_specialty_code ps)) city (pageSize ps) log"
    by (simp add: handleSearch_def Let_def truthy_orEmpty searchByQualificationCode_def
                  orEmpty_def)
  also have "\<dots> = (Inr (envelopeOf [] None (Some (noStructureMessage city)) None),
                   log @ [organizationQuery city])"
    using assms(8)
    by (simp add: searchBySpecialtyAndCity_def bindIO_def retIO_def
                  fhirFetch_ok[where up=up and log=log, OF assms(7)])
  finally show ?thesis
    by (simp add: envelopeOf_def jsonResponse_def noStructureMessage_def e_acute_def
                  a_grave_def)
qed

theorem C7_no_facility_message_witness:
  "truthy (pm_specialty_code lyonParams) \<and> pm_city lyonParams = Some ''Lyon''
   \<and> silentUpstream [] (organizationQuery ''Lyon'') = HttpOk emptyBundle
   \<and> noEntries emptyBundle
   \<and> handleSearch silentUpstream lyonParams [] =
        (Inr \<lparr>status = 200,
              body = Envelope \<lparr>total = 0, totalFhir = None, results = [],
                                message = Some (''Aucune structure trouv''
                                  @ [CHR 0xC3, CHR 0xA9] @ ''e '' @ [CHR 0xC3, CHR 0xA0]
                                  @ '' Lyon''),
                                nextPage = None\<rparr>\<rparr>,
         [Search ''Organization''
            [(''address-city'', ''Lyon''), (''_count'', ''200''),
             (''_elements'', ''id,name,address,telecom'')] ])"
proof -
  have a: "\<not> truthy (pm_next lyonParams)" "\<not> truthy (pm_rpps lyonParams)"
    "truthy (pm_specialty_code lyonParams)" "\<not> truthy (pm_name lyonParams)"
    by (simp_all add: lyonParams_def noParams_def truthy_def)
  have c: "pm_city lyonParams = Some ''Lyon''" by (simp add: lyonParams_def)
  have n: "''Lyon'' \<noteq> []" by simp
  have u: "silentUpstream [] (organizationQuery ''Lyon'') = HttpOk emptyBundle"
    by (simp add: silentUpstream_def)
  have e: "noEntries emptyBundle" by (simp add: noEntries_def emptyBundle_def orNil_def)
  have q: "organizationQuery ''Lyon'' = Search ''Organization''
            [(''address-city'', ''Lyon''), (''_count'', ''200''),
             (''_elements'', ''id,name,address,telecom'')]"
    by (simp add: organizationQuery_def)
  from C7_no_facility_message[where up=silentUpstream and log="[]", OF a c n u e] a(3) c u e q
  show ?thesis by simp
qed

subsection \<open>Page size\<close>

lemma pageSize_bounded: "pageSize ps = Num n \<Longrightarrow> n \<le> 500"
  by (cases "parseInt10 (orEmpty (orElse (pm_count ps) (Some ''200'')))")
     (auto simp: pageSize_def)

lemma pageSize_absent: "\<not> truthy (pm_count ps) \<Longrightarrow> pageSize ps = Num 200"
  by (simp add: pageSize_def orElse_def orEmpty_def parseInt10_def trimStart_def unchunk_def wsPrefix_def whiteSpaces_def startsWith_def isDigit_def
                digitsVal_def digitVal_def)

text \<open>
  C9, at the failing input \<^verbatim>\<open>?city=Lyon&count=abc\<close>: the page size is
  \<^verbatim>\<open>NaN\<close>, which is not at most 500, and the role strategy sends
  \<^verbatim>\<open>_count=NaN\<close> upstream.
\<close>

theorem C9_non_numeric_count_is_NaN:
  "pageSize nanParams = NaN
   \<and> snd (handleSearch silentUpstream nanParams []) =
       [Search ''PractitionerRole''
          [(''_count'', ''NaN''), (''_include'', ''PractitionerRole:organization'')] ]"
proof -
  have p: "pageSize nanParams = NaN"
    by (simp add: pageSize_def nanParams_def noParams_def orElse_def orEmpty_def truthy_def
                  parseInt10_def trimStart_def unchunk_def wsPrefix_def whiteSpaces_def startsWith_def isDigit_def)
  have "handleSearch silentUpstream nanParams =
          searchByRoleFilters silentUpstream ''Lyon'' [] NaN"
    by (simp add: handleSearch_def Let_def p)
       (simp add: nanParams_def noParams_def truthy_def orEmpty_def)
  then show ?thesis
    by (simp add: p searchByRoleFilters_def bindIO_def fhirFetch_def silentUpstream_def
                  noEntries_def emptyBundle_def orNil_def retIO_def)
qed

subsection \<open>Post-filters\<close>

lemma filterE_length: "filterE f xs = Inr ys \<Longrightarrow> length ys \<le> length xs"
  by (induction xs arbitrary: ys) (auto split: sum.splits if_splits)

lemma filterE_subset: "filterE f xs = Inr ys \<Longrightarrow> set ys \<subseteq> set xs"
  by (induction xs arbitrary: ys) (auto split: sum.splits if_splits)

text \<open>Both filters are monotone: when a filter returns, its list is not longer than the
  list it was given.\<close>

lemma filterByCity_length:
  "filterByCity rs city = Inr ys \<Longrightarrow> length ys \<le> length rs"
  by (auto simp: filterByCity_def dest: filterE_length split: if_splits)

lemma filterBySpecialty_length:
  "filterBySpecialty rs specialty = Inr ys \<Longrightarrow> length ys \<le> length rs"
  by (auto simp: filterBySpecialty_def dest: filterE_length split: if_splits)

text \<open>\<^verbatim>\<open>filter\<close> with a callback that may throw, in one formula: the exception of the
  first element whose call throws, else the elements for which the call is true.\<close>

lemma filterE_char:
  "filterE f xs =
     (case find (\<lambda>x. isl (f x)) xs of
        Some x \<Rightarrow> Inl (projl (f x))
      | None \<Rightarrow> Inr (filter (\<lambda>x. projr (f x)) xs))"
  by (induction xs) (auto split: sum.splits option.splits)

lemma someE_total:
  "(\<And>x. x \<in> set xs \<Longrightarrow> f x = Inr (g x)) \<Longrightarrow> someE f xs = Inr (list_ex g xs)"
  by (induction xs) auto

text \<open>Two callbacks that throw on the same elements, and the same exception \<open>e\<close>:
  the two orders of filtering agree.\<close>

lemma filterE_commute:
  assumes "\<And>x. x \<in> set xs \<Longrightarrow>
             (f x = Inl e \<and> g x = Inl e) \<or> (\<not> isl (f x) \<and> \<not> isl (g x))"
  shows "(case filterE f xs of Inl e \<Rightarrow> Inl e | Inr ys \<Rightarrow> filterE g ys)
         = (case filterE g xs of Inl e \<Rightarrow> Inl e | Inr ys \<Rightarrow> filterE f ys)"
  using assms
proof (induction xs)
  case Nil
  then show ?case by simp
next
  case (Cons x xs)
  have t: "\<And>y. y \<in> set xs \<Longrightarrow>
             (f y = Inl e \<and> g y = Inl e) \<or> (\<not> isl (f y) \<and> \<not> isl (g y))"
    using Cons.prems by simp
  note IH = Cons.IH[OF t]
  from Cons.prems[of x] consider "f x = Inl e" "g x = Inl e"
    | a b where "f x = Inr a" "g x = Inr b"
    by (cases "f x"; cases "g x") auto
  then show ?case
  proof cases
    case 1
    then show ?thesis by simp
  next
    case 2
    show ?thesis
    proof (cases "filterE f xs")
      case fl: (Inl e1)
      show ?thesis
      proof (cases "filterE g xs")
        case (Inl e2)
        with fl IH 2 show ?thesis by simp
      next
        case (Inr zs)
        with fl IH have "filterE f zs = Inl e1" by simp
        with fl Inr 2 show ?thesis by simp
      qed
    next
      case fr: (Inr ys)
      show ?thesis
      proof (cases "filterE g xs")
        case (Inl e2)
        with fr IH have "filterE g ys = Inl e2" by simp
        with fr Inl 2 show ?thesis by simp
      next
        case (Inr zs)
        with fr IH have "filterE g ys = filterE f zs" by simp
        with fr Inr 2 show ?thesis by (cases "filterE f zs") simp_all
      qed
    qed
  qed
qed

lemma resultHasSpecialty_total:
  assumes "\<And>l rl. roles m = Value l \<Longrightarrow> rl \<in> set l \<Longrightarrow> None \<notin> set (specialties rl)"
  shows "resultHasSpecialty s m = Inl (NotAFunction ''r.roles.some'')
         \<and> (\<exists>k. roles m = Inherited k)
         \<or> \<not> isl (resultHasSpecialty s m) \<and> (\<exists>l. roles m = Value l)"
proof (cases "roles m")
  case (Inherited k)
  then show ?thesis by (simp add: resultHasSpecialty_def rolesSome_def)
next
  case (Value l)
  have inner: "\<And>rl. rl \<in> set l \<Longrightarrow>
      someE (labelMatches s) (specialties rl)
        = Inr (list_ex (\<lambda>l. includesStr (toLowerCase (the l)) s) (specialties rl))"
  proof (rule someE_total)
    fix rl x assume "rl \<in> set l" "x \<in> set (specialties rl)"
    with assms[OF Value] have "x \<noteq> None" by metis
    then show "labelMatches s x = Inr (includesStr (toLowerCase (the x)) s)"
      by (auto simp: labelMatches_def)
  qed
  have "someE (\<lambda>rl. someE (labelMatches s) (specialties rl)) l
          = Inr (list_ex (\<lambda>rl. list_ex (\<lambda>l. includesStr (toLowerCase (the l)) s) (specialties rl))
                  l)"
    by (rule someE_total) (rule inner)
  with Value show ?thesis by (simp add: resultHasSpecialty_def rolesSome_def)
qed

lemma inCity_total:
  "rolesSome (\<lambda>rl. Inr (roleInCity c rl)) (roles m) = Inl (NotAFunction ''r.roles.some'')
   \<and> (\<exists>k. roles m = Inherited k)
   \<or> \<not> isl (rolesSome (\<lambda>rl. Inr (roleInCity c rl)) (roles m)) \<and> (\<exists>l. roles m = Value l)"
proof (cases "roles m")
  case (Inherited k)
  then show ?thesis by (simp add: rolesSome_def)
next
  case (Value l)
  have "someE (\<lambda>rl. Inr (roleInCity c rl)) l = Inr (list_ex (roleInCity c) l)"
    by (rule someE_total) simp
  with Value show ?thesis by (simp add: rolesSome_def)
qed

text \<open>The filters commute on every list of results whose specialty labels are all
  defined: both orders return the same list, or throw the same exception.\<close>

lemma filters_commute_defined_labels:
  assumes "\<And>m l rl. m \<in> set rs \<Longrightarrow> roles m = Value l \<Longrightarrow> rl \<in> set l
             \<Longrightarrow> None \<notin> set (specialties rl)"
  shows "cityThenSpecialty rs city specialty = specialtyThenCity rs city specialty"
proof (cases "city = [] \<or> specialty = []")
  case True
  then show ?thesis
    by (auto simp: cityThenSpecialty_def specialtyThenCity_def filterBySpecialty_def
                   filterByCity_def split: sum.splits)
next
  case False
  let ?f = "\<lambda>r. rolesSome (\<lambda>rl. Inr (roleInCity (toLowerCase city) rl)) (roles r)"
  let ?g = "resultHasSpecialty (toLowerCase specialty)"
  have "(?f x = Inl (NotAFunction ''r.roles.some'') \<and> ?g x = Inl (NotAFunction ''r.roles.some''))
        \<or> (\<not> isl (?f x) \<and> \<not> isl (?g x))" if "x \<in> set rs" for x
    using inCity_total[of "toLowerCase city" x]
          resultHasSpecialty_total[of x "toLowerCase specialty"] assms[OF that]
    by auto
  from filterE_commute[of rs ?f "NotAFunction ''r.roles.some''" ?g, OF this] False
  show ?thesis
    by (simp add: cityThenSpecialty_def specialtyThenCity_def filterBySpecialty_def
                  filterByCity_def cong: sum.case_cong)
qed

text \<open>
  C5, at the failing input: one practitioner whose only role has a specialty coding
  with neither display nor code (its label is \<^verbatim>\<open>undefined\<close>), city "Lyon",
  specialty "cardio"; this list of results is what the merge returns for the
  practitioner and the role. City first gives the empty list; specialty first throws the
  TypeError. The two orders do not give the same result. A name search with that
  specialty on an upstream holding this role ends in the status 500. (Both filters are
  monotone, and they commute on results whose labels are all defined: the lemmas
  above.)
\<close>

theorem C5_filters_do_not_commute_on_bare_coding:
  "mergePractitionersAndRoles [samplePractitioner] [bareRole] Map.empty = Inr bareResults
   \<and> map roles bareResults = [Value [bareRole] ] \<and> map specialties [bareRole] = [ [None] ]
   \<and> cityThenSpecialty bareResults ''Lyon'' ''cardio'' = Inr []
   \<and> specialtyThenCity bareResults ''Lyon'' ''cardio'' = Inl TypeError
   \<and> status (fst (onRequest bareUpstream ''GET'' cardioParams)) = 500"
proof -
  have e2e: "status (fst (onRequest bareUpstream ''GET'' cardioParams)) = 500"
    by code_simp
  have b: "practitionerId bareRole = ''p1''" "specialties bareRole = [None]"
     "r_organization bareRole = None" "r_address bareRole = None" "r_city bareRole = None"
     "organizationId bareRole = []"
    by (simp_all add: bareRole_def rawRoleOf_def parsePractitionerRole_def refOf_def
                  orEmpty_def orElse_def truthy_def startsWith_def bareCoding_def orNil_def)
  have i: "p_id samplePractitioner = ''p1''"
    by (simp add: samplePractitioner_def parsePractitioner_def Let_def)
  have k: "''p1'' \<notin> set inheritedKeys" by (simp add: inheritedKeys_def)
  have w: "withRoles [''p1'' \<mapsto> [bareRole] ] samplePractitioner
             = practitioner.extend samplePractitioner (merged.fields (Value [bareRole]))"
    by (simp add: withRoles_def getProp_def i)
  have mg: "mergePractitionersAndRoles [samplePractitioner] [bareRole] Map.empty
              = Inr bareResults"
    by (simp add: merge_char bareResults_def w b i k rolesOfPractitioner_def
                  attachOrganization_def)
  have rs: "map roles bareResults = [Value [bareRole] ]"
    by (simp add: bareResults_def w practitioner.defs merged.defs)
  then obtain m where m: "bareResults = [m]" "roles m = Value [bareRole]"
    by (cases bareResults) auto
  have f: "cityThenSpecialty bareResults ''Lyon'' ''cardio'' = Inr []"
    "specialtyThenCity bareResults ''Lyon'' ''cardio'' = Inl TypeError"
    by (simp_all add: m b cityThenSpecialty_def specialtyThenCity_def filterByCity_def
                  filterBySpecialty_def resultHasSpecialty_def labelMatches_def
                  roleInCity_def lowerIncludes_def rolesSome_def orgProperty_def)
  from mg rs f e2e b(2) show ?thesis by simp
qed

subsection \<open>Batched fetching\<close>

lemma startsFrom_done: "0 < B \<Longrightarrow> m \<le> i \<Longrightarrow> startsFrom B i m = []"
  by (simp add: startsFrom_def ceilDiv_def)

lemma ceilDiv_step:
  assumes "0 < B" and "0 < n"
  shows "ceilDiv n B = Suc (ceilDiv (n - B) B)"
proof (cases "B \<le> n")
  case True
  then have "n + (B - 1) = (n - B + (B - 1)) + B" using assms by simp
  then have "(n + (B - 1)) div B = (n - B + (B - 1)) div B + 1"
    using assms(1) by (simp only: div_add_self2)
  then show ?thesis by (simp add: ceilDiv_def)
next
  case False
  then have a: "n - B = 0" by simp
  have "B * 1 \<le> n + (B - 1)" "n + (B - 1) < B * Suc 1" using assms False by auto
  then have "(n + (B - 1)) div B = 1" by (rule div_nat_eqI)
  then show ?thesis using a assms by (simp add: ceilDiv_def)
qed

lemma startsFrom_step:
  assumes "0 < B" and "i < m"
  shows "startsFrom B i m = i # startsFrom B (i + B) m"
proof -
  have n: "ceilDiv (m - i) B = Suc (ceilDiv (m - (i + B)) B)"
    using ceilDiv_step[of B "m - i"] assms by simp
  have u: "[0..<Suc (ceilDiv (m - (i + B)) B)] = 0 # map Suc [0..<ceilDiv (m - (i + B)) B]"
    by (simp only: map_Suc_upt upt_conv_Cons zero_less_Suc)
  show ?thesis
    unfolding startsFrom_def n u by (simp add: comp_def add.assoc)
qed

lemma runBatches_Cons:
  "runBatches up step (r # rs) st log =
     (case up log r of
        HttpOk b \<Rightarrow> runBatches up step rs (step st b) (log @ [r])
      | HttpError c msg \<Rightarrow> (Inl (FhirApiError c (take 200 msg)), log @ [r]))"
  by (simp add: fhirFetch_def split: http_result.splits)

lemma fetchRolesLoop_runBatches:
  "fetchRolesLoop up ids i acc log =
     runBatches up collectBundle (batchRequests roleBatchRequest 50 i (min (length ids) 300) ids) acc log"
proof (induction up ids i acc log rule: fetchRolesLoop.induct)
  case (1 up ids i acc log)
  let ?m = "min (length ids) 300"
  show ?case
  proof (cases "i < length ids \<and> i < 50 * 6")
    case True
    then have s: "startsFrom 50 i ?m = i # startsFrom 50 (i + 50) ?m"
      by (intro startsFrom_step) auto
    let ?r = "roleBatchRequest (take 50 (drop i ids))"
    have r: "batchRequests roleBatchRequest 50 i ?m ids = ?r # batchRequests roleBatchRequest 50 (i + 50) ?m ids"
      by (simp add: batchRequests_def s)
    show ?thesis
    proof (cases "up log ?r")
      case (HttpOk b)
      then have f: "fhirFetch up ?r log = (Inr b, log @ [?r])" by (simp add: fhirFetch_def)
      have "fetchRolesLoop up ids i acc log =
              fetchRolesLoop up ids (i + 50) (collectBundle acc b) (log @ [?r])"
        using True by (subst fetchRolesLoop.simps) (simp add: f collectBundle_def)
      also have "\<dots> = runBatches up collectBundle (batchRequests roleBatchRequest 50 (i + 50) ?m ids)
                         (collectBundle acc b) (log @ [?r])"
        using "1.IH"[OF True f[symmetric] refl] by (simp add: collectBundle_def)
      finally show ?thesis by (simp add: r runBatches_Cons HttpOk del: runBatches.simps)
    next
      case (HttpError c msg)
      then have f: "fhirFetch up ?r log = (Inl (FhirApiError c (take 200 msg)), log @ [?r])"
        by (simp add: fhirFetch_def)
      have "fetchRolesLoop up ids i acc log = (Inl (FhirApiError c (take 200 msg)), log @ [?r])"
        using True by (subst fetchRolesLoop.simps) (simp add: f)
      then show ?thesis by (simp add: r runBatches_Cons HttpError del: runBatches.simps)
    qed
  next
    case False
    then have "startsFrom 50 i ?m = []"
      by (intro startsFrom_done) auto
    with False show ?thesis
      by (subst fetchRolesLoop.simps) (auto simp: batchRequests_def)
  qed
qed

lemma fetchRolesLoop_p000_runBatches:
  "fetchRolesLoop_p000 up ids i acc log =
     runBatches up collectBundle (batchRequests roleBatchRequest 20 i (length ids) ids) acc log"
proof (induction up ids i acc log rule: fetchRolesLoop_p000.induct)
  case (1 up ids i acc log)
  let ?m = "length ids"
  show ?case
  proof (cases "i < length ids")
    case True
    then have s: "startsFrom 20 i ?m = i # startsFrom 20 (i + 20) ?m"
      by (intro startsFrom_step) auto
    let ?r = "roleBatchRequest (take 20 (drop i ids))"
    have r: "batchRequests roleBatchRequest 20 i ?m ids = ?r # batchRequests roleBatchRequest 20 (i + 20) ?m ids"
      by (simp add: batchRequests_def s)
    show ?thesis
    proof (cases "up log ?r")
      case (HttpOk b)
      then have f: "fhirFetch up ?r log = (Inr b, log @ [?r])" by (simp add: fhirFetch_def)
      have "fetchRolesLoop_p000 up ids i acc log =
              fetchRolesLoop_p000 up ids (i + 20) (collectBundle acc b) (log @ [?r])"
        using True by (subst fetchRolesLoop_p000.simps) (simp add: f collectBundle_def)
      also have "\<dots> = runBatches up collectBundle (batchRequests roleBatchRequest 20 (i + 20) ?m ids)
                         (collectBundle acc b) (log @ [?r])"
        using "1.IH"[OF True f[symmetric] refl] by (simp add: collectBundle_def)
      finally show ?thesis by (simp add: r runBatches_Cons HttpOk del: runBatches.simps)
    next
      case (HttpError c msg)
      then have f: "fhirFetch up ?r log = (Inl (FhirApiError c (take 200 msg)), log @ [?r])"
        by (simp add: fhirFetch_def)
      have "fetchRolesLoop_p000 up ids i acc log
              = (Inl (FhirApiError c (take 200 msg)), log @ [?r])"
        using True by (subst fetchRolesLoop_p000.simps) (simp add: f)
      then show ?thesis by (simp add: r runBatches_Cons HttpError del: runBatches.simps)
    qed
  next
    case False
    then have "startsFrom 20 i ?m = []"
      by (intro startsFrom_done) auto
    with False show ?thesis
      by (subst fetchRolesLoop_p000.simps) (auto simp: batchRequests_def)
  qed
qed

lemma runBatches_ok:
  "runBatches up step reqs st log = (Inr res, log') \<Longrightarrow>
     log' = log @ reqs \<and> length (answers up log reqs) = length reqs
     \<and> res = foldl step st (answers up log reqs)"
proof (induction reqs arbitrary: st log)
  case Nil
  then show ?case by simp
next
  case (Cons r reqs)
  show ?case
  proof (cases "up log r")
    case (HttpOk b)
    with Cons.prems have "runBatches up step reqs (step st b) (log @ [r]) = (Inr res, log')"
      by (simp add: runBatches_Cons del: runBatches.simps)
    from Cons.IH[OF this] HttpOk show ?thesis by simp
  next
    case (HttpError c msg)
    with Cons.prems show ?thesis by (simp add: runBatches_Cons del: runBatches.simps)
  qed
qed

lemma runBatches_log:
  "\<exists>n\<le>length reqs. snd (runBatches up step reqs st log) = log @ take n reqs"
proof (induction reqs arbitrary: st log)
  case Nil
  then show ?case by simp
next
  case (Cons r reqs)
  show ?case
  proof (cases "up log r")
    case (HttpOk b)
    from Cons[of "step st b" "log @ [r]"] obtain n where
      n: "n \<le> length reqs"
         "snd (runBatches up step reqs (step st b) (log @ [r])) = log @ [r] @ take n reqs"
      by auto
    have "Suc n \<le> length (r # reqs)
          \<and> snd (runBatches up step (r # reqs) st log) = log @ take (Suc n) (r # reqs)"
      using n HttpOk by (simp add: runBatches_Cons del: runBatches.simps)
    then show ?thesis by blast
  next
    case (HttpError c msg)
    have "Suc 0 \<le> length (r # reqs)
          \<and> snd (runBatches up step (r # reqs) st log) = log @ take (Suc 0) (r # reqs)"
      using HttpError by (simp add: runBatches_Cons del: runBatches.simps)
    then show ?thesis by blast
  qed
qed

lemma ceil_cap:
  assumes "0 < B"
  shows "ceilDiv (min n (B * M)) B = min (ceilDiv n B) M"
proof (cases "n \<le> B * M")
  case True
  then have "n + (B - 1) < Suc M * B" using assms by (simp add: mult.commute)
  then have "(n + (B - 1)) div B < Suc M" by (rule less_mult_imp_div_less)
  then show ?thesis using True by (simp add: min_def ceilDiv_def)
next
  case False
  then have "B * M + (B - 1) \<le> n + (B - 1)" by simp
  then have "(B * M + (B - 1)) div B \<le> (n + (B - 1)) div B" by (rule div_le_mono)
  moreover have "(B * M + (B - 1)) div B = M" using assms by (intro div_nat_eqI) auto
  ultimately show ?thesis using False by (simp add: min_def ceilDiv_def)
qed

lemma take_upt0: "take M [0..<c] = [0..<min c M]"
  by (cases "M \<le> c") (simp_all add: min_def)

lemma batchRequests_0:
  "0 < B \<Longrightarrow> batchRequests mk B 0 (min (length ids) (B * M)) ids
     = map mk (take M (batchesOf B ids))"
  by (simp add: batchRequests_def startsFrom_def batchesOf_def take_map ceil_cap comp_def
                take_upt0)

lemma batchRequests_0_all:
  "0 < B \<Longrightarrow> batchRequests mk B 0 (length ids) ids = map mk (batchesOf B ids)"
  by (simp add: batchRequests_def startsFrom_def batchesOf_def comp_def)

lemma collectEntries_roles:
  "practitionerRoles (foldl collectEntry acc es)
     = practitionerRoles acc @ map parsePractitionerRole (roleEntries es)"
proof (induction es arbitrary: acc)
  case Nil
  then show ?case by simp
next
  case (Cons e es)
  then show ?case by (cases e) simp_all
qed

lemma collectEntries_orgs:
  "organizations (foldl collectEntry acc es)
     = organizations acc ++ map_of (rev (map (\<lambda>og. (ro_id og, parseOrganization og)) (orgEntries es)))"
proof (induction es arbitrary: acc)
  case Nil
  then show ?case by simp
next
  case (Cons e es)
  show ?case
  proof (cases e)
    case (OrganizationRes og)
    have "(organizations acc)(ro_id og \<mapsto> parseOrganization og)
            = organizations acc ++ map_of [(ro_id og, parseOrganization og)]"
      by simp
    then show ?thesis
      using Cons[of "collectEntry acc e"] OrganizationRes
      by (simp add: map_add_assoc del: map_add_upd map_of.simps) 
  qed (use Cons in simp_all)
qed

lemma foldl_collectBundle:
  "foldl collectBundle acc bs = foldl collectEntry acc (entriesOf bs)"
  by (induction bs arbitrary: acc) (simp_all add: entriesOf_def collectBundle_def)

lemma fetchRoles_ok:
  assumes "fetchRolesForPractitioners up ids log = (Inr res, log')"
  shows "log' = log @ map roleBatchRequest (take 6 (batchesOf 50 ids))"
    and "length (answers up log (map roleBatchRequest (take 6 (batchesOf 50 ids))))
           = length (take 6 (batchesOf 50 ids))"
    and "res = foldl collectEntry noRoles
                 (entriesOf (answers up log (map roleBatchRequest (take 6 (batchesOf 50 ids)))))"
proof -
  have r: "batchRequests roleBatchRequest 50 0 (min (length ids) 300) ids
             = map roleBatchRequest (take 6 (batchesOf 50 ids))"
    using batchRequests_0[of 50 roleBatchRequest ids 6] by simp
  from assms have "runBatches up collectBundle (map roleBatchRequest (take 6 (batchesOf 50 ids)))
                     noRoles log = (Inr res, log')"
    by (simp add: fetchRolesForPractitioners_def fetchRolesLoop_runBatches r noRoles_def)
  from runBatches_ok[OF this]
  show "log' = log @ map roleBatchRequest (take 6 (batchesOf 50 ids))"
    and "length (answers up log (map roleBatchRequest (take 6 (batchesOf 50 ids))))
           = length (take 6 (batchesOf 50 ids))"
    and "res = foldl collectEntry noRoles
                 (entriesOf (answers up log (map roleBatchRequest (take 6 (batchesOf 50 ids)))))"
    by (simp_all add: foldl_collectBundle)
qed

lemma fetchRoles_p000_ok:
  assumes "fetchRolesForPractitioners_p000 up ids log = (Inr res, log')"
  shows "log' = log @ map roleBatchRequest (batchesOf 20 ids)"
    and "res = foldl collectEntry noRoles
                 (entriesOf (answers up log (map roleBatchRequest (batchesOf 20 ids))))"
proof -
  have r: "batchRequests roleBatchRequest 20 0 (length ids) ids = map roleBatchRequest (batchesOf 20 ids)"
    using batchRequests_0_all[of 20 roleBatchRequest ids] by simp
  from assms have "runBatches up collectBundle (map roleBatchRequest (batchesOf 20 ids))
                     noRoles log = (Inr res, log')"
    by (simp add: fetchRolesForPractitioners_p000_def fetchRolesLoop_p000_runBatches r noRoles_def)
  from runBatches_ok[OF this]
  show "log' = log @ map roleBatchRequest (batchesOf 20 ids)"
    and "res = foldl collectEntry noRoles
                 (entriesOf (answers up log (map roleBatchRequest (batchesOf 20 ids))))"
    by (simp_all add: foldl_collectBundle)
qed

lemma batchesOf_length: "length (batchesOf B xs) = ceilDiv (length xs) B"
  by (simp add: batchesOf_def)

lemma batchesOf_size: "b \<in> set (batchesOf B xs) \<Longrightarrow> length b \<le> B"
  by (auto simp: batchesOf_def)

lemma concat_batches_upto:
  "concat (map (\<lambda>k. take B (drop (B * k) xs)) [0..<n]) = take (B * n) xs"
proof (induction n)
  case 0
  then show ?case by simp
next
  case (Suc n)
  have "take (B * n) xs @ take B (drop (B * n) xs) = take (B * n + B) xs"
    by (simp add: take_add)
  with Suc show ?case by (simp add: add.commute)
qed

lemma ceilDiv_covers: "0 < B \<Longrightarrow> n \<le> B * ceilDiv n B"
proof -
  assume B: "0 < B"
  have "n + (B - 1) < B * ((n + (B - 1)) div B) + B"
    using B by (metis add.commute dividend_less_times_div mult.commute)
  then show ?thesis using B by (simp add: ceilDiv_def)
qed

lemma concat_batchesOf: "0 < B \<Longrightarrow> concat (batchesOf B xs) = xs"
  by (simp add: batchesOf_def concat_batches_upto ceilDiv_covers)

lemma concat_take_batchesOf:
  "0 < B \<Longrightarrow> concat (take M (batchesOf B xs)) = take (B * M) xs"
proof -
  assume B: "0 < B"
  have "concat (take M (batchesOf B xs)) = take (B * min (ceilDiv (length xs) B) M) xs"
    by (simp add: batchesOf_def take_map take_upt0 concat_batches_upto)
  also have "\<dots> = take (B * M) xs"
  proof (cases "M \<le> ceilDiv (length xs) B")
    case True
    then show ?thesis by (simp add: min_def)
  next
    case False
    then have "length xs \<le> B * M"
      using ceilDiv_covers[OF B, of "length xs"]
      by (meson le_trans mult_le_mono2 nat_le_linear)
    with False ceilDiv_covers[OF B, of "length xs"] show ?thesis by (simp add: min_def)
  qed
  finally show ?thesis .
qed

subsection \<open>The batch fetcher\<close>

text \<open>
  C4, as amended. The calls of the fetcher are always an initial segment of the role
  queries of the first 6 batches of 50 identifiers, at most \<open>min (ceil (n / 50)) 6\<close>.
  When the fetcher returns it has issued them all: \<open>min (ceil (n / 50)) 6\<close> calls,
  each batch of at most 50 identifiers, together the first 300 identifiers; and
  every role returned is the parse of a role entry of a bundle that the upstream gave to
  one of these calls. The older fetcher has batches of 20 and no ceiling: it issues
  exactly \<open>ceil (n / 20)\<close> calls, which together carry all identifiers.
\<close>

theorem C4_batches_capped_at_six:
  "(\<exists>n\<le>min (ceilDiv (length ids) 50) 6.
      snd (fetchRolesForPractitioners up ids log)
        = log @ take n (map roleBatchRequest (take 6 (batchesOf 50 ids))))
   \<and> (fetchRolesForPractitioners up ids log = (Inr res, log') \<longrightarrow>
      log' = log @ map roleBatchRequest (take 6 (batchesOf 50 ids))
      \<and> length (take 6 (batchesOf 50 ids)) = min (ceilDiv (length ids) 50) 6
      \<and> list_all (\<lambda>b. length b \<le> 50) (take 6 (batchesOf 50 ids))
      \<and> concat (take 6 (batchesOf 50 ids)) = take 300 ids
      \<and> set (practitionerRoles res)
          \<subseteq> parsePractitionerRole `
              set (roleEntries (entriesOf (answers up log
                    (map roleBatchRequest (take 6 (batchesOf 50 ids)))))))
   \<and> (fetchRolesForPractitioners_p000 up ids log = (Inr res0, log0) \<longrightarrow>
      log0 = log @ map roleBatchRequest (batchesOf 20 ids)
      \<and> length (batchesOf 20 ids) = ceilDiv (length ids) 20
      \<and> list_all (\<lambda>b. length b \<le> 20) (batchesOf 20 ids)
      \<and> concat (batchesOf 20 ids) = ids
      \<and> set (practitionerRoles res0)
          \<subseteq> parsePractitionerRole `
              set (roleEntries (entriesOf (answers up log
                    (map roleBatchRequest (batchesOf 20 ids))))))"
proof (intro conjI impI)
  have r: "batchRequests roleBatchRequest 50 0 (min (length ids) 300) ids
             = map roleBatchRequest (take 6 (batchesOf 50 ids))"
    using batchRequests_0[of 50 roleBatchRequest ids 6] by simp
  have "length (map roleBatchRequest (take 6 (batchesOf 50 ids)))
          = min (ceilDiv (length ids) 50) 6"
    by (simp add: batchesOf_length min.commute)
  with runBatches_log[of "map roleBatchRequest (take 6 (batchesOf 50 ids))" up collectBundle
         noRoles log]
  show "\<exists>n\<le>min (ceilDiv (length ids) 50) 6.
      snd (fetchRolesForPractitioners up ids log)
        = log @ take n (map roleBatchRequest (take 6 (batchesOf 50 ids)))"
    by (simp add: fetchRolesForPractitioners_def fetchRolesLoop_runBatches r noRoles_def
                  batchesOf_length)
next
  assume a: "fetchRolesForPractitioners up ids log = (Inr res, log')"
  show "log' = log @ map roleBatchRequest (take 6 (batchesOf 50 ids))"
    by (rule fetchRoles_ok(1)[OF a])
  show "length (take 6 (batchesOf 50 ids)) = min (ceilDiv (length ids) 50) 6"
    by (simp add: batchesOf_length min.commute)
  show "list_all (\<lambda>b. length b \<le> 50) (take 6 (batchesOf 50 ids))"
    by (auto simp: list_all_iff dest!: in_set_takeD batchesOf_size)
  show "concat (take 6 (batchesOf 50 ids)) = take 300 ids"
    using concat_take_batchesOf[of 50 6 ids] by simp
  show "set (practitionerRoles res)
          \<subseteq> parsePractitionerRole `
              set (roleEntries (entriesOf (answers up log
                    (map roleBatchRequest (take 6 (batchesOf 50 ids))))))"
    by (simp add: fetchRoles_ok(3)[OF a] collectEntries_roles noRoles_def)
next
  assume a: "fetchRolesForPractitioners_p000 up ids log = (Inr res0, log0)"
  show "log0 = log @ map roleBatchRequest (batchesOf 20 ids)"
    by (rule fetchRoles_p000_ok(1)[OF a])
  show "length (batchesOf 20 ids) = ceilDiv (length ids) 20"
    by (rule batchesOf_length)
  show "list_all (\<lambda>b. length b \<le> 20) (batchesOf 20 ids)"
    by (auto simp: list_all_iff dest!: batchesOf_size)
  show "concat (batchesOf 20 ids) = ids"
    by (simp add: concat_batchesOf)
  show "set (practitionerRoles res0)
          \<subseteq> parsePractitionerRole `
              set (roleEntries (entriesOf (answers up log
                    (map roleBatchRequest (batchesOf 20 ids)))))"
    by (simp add: fetchRoles_p000_ok(2)[OF a] collectEntries_roles noRoles_def)
qed

lemma silent_run:
  "runBatches silentUpstream collectBundle reqs st log = (Inr st, log @ reqs)"
  by (induction reqs arbitrary: st log)
     (simp_all add: fhirFetch_def silentUpstream_def collectBundle_def emptyBundle_def orNil_def)

text \<open>
  C4, as stated, fails on 301 identifiers: \<open>ceil (301 / 50) = 7\<close>, and the fetcher
  returns after 6 calls.
\<close>

theorem C4_batches_counterexample:
  "length (manyIds 301) = 301 \<and> ceilDiv 301 50 = 7
   \<and> fst (fetchRolesForPractitioners silentUpstream (manyIds 301) []) = Inr noRoles
   \<and> length (snd (fetchRolesForPractitioners silentUpstream (manyIds 301) [])) = 6"
proof -
  have l: "length (manyIds 301) = 301" by (simp add: manyIds_def)
  have c: "ceilDiv 301 50 = 7" by (simp add: ceilDiv_def)
  have r: "batchRequests roleBatchRequest 50 0 (min (length (manyIds 301)) 300) (manyIds 301)
             = map roleBatchRequest (take 6 (batchesOf 50 (manyIds 301)))"
    using batchRequests_0[of 50 roleBatchRequest "manyIds 301" 6] by simp
  have f: "fetchRolesForPractitioners silentUpstream (manyIds 301) []
       = (Inr noRoles, map roleBatchRequest (take 6 (batchesOf 50 (manyIds 301))))"
    by (simp add: fetchRolesForPractitioners_def fetchRolesLoop_runBatches r silent_run
                  noRoles_def)
  show ?thesis
    by (simp add: f l c batchesOf_length)
qed

theorem C4_batches_capped_at_six_witness:
  "fetchRolesForPractitioners silentUpstream [''a'', ''b'', ''c''] []
     = (Inr noRoles, [roleBatchRequest [''a'', ''b'', ''c''] ])
   \<and> ceilDiv (length [''a'', ''b'', ''c'']) 50 = 1
   \<and> fetchRolesForPractitioners_p000 silentUpstream [''a'', ''b'', ''c''] []
     = (Inr noRoles, [roleBatchRequest [''a'', ''b'', ''c''] ])
   \<and> take 6 (batchesOf 50 [''a'', ''b'', ''c'']) = [ [''a'', ''b'', ''c''] ]"
proof -
  have a: "fetchRolesForPractitioners silentUpstream [''a'', ''b'', ''c''] []
     = (Inr noRoles, [roleBatchRequest [''a'', ''b'', ''c''] ])"
    by (simp add: fetchRolesForPractitioners_def fetchRolesLoop.simps fhirFetch_def
                  silentUpstream_def emptyBundle_def orNil_def noRoles_def)
  have b: "fetchRolesForPractitioners_p000 silentUpstream [''a'', ''b'', ''c''] []
     = (Inr noRoles, [roleBatchRequest [''a'', ''b'', ''c''] ])"
    by (simp add: fetchRolesForPractitioners_p000_def fetchRolesLoop_p000.simps fhirFetch_def
                  silentUpstream_def emptyBundle_def orNil_def noRoles_def)
  have c: "ceilDiv (length [''a'', ''b'', ''c'']) 50 = 1" by (simp add: ceilDiv_def)
  from C4_batches_capped_at_six[where up=silentUpstream and ids="[''a'', ''b'', ''c'']"
         and log="[]" and res=noRoles and log'="[roleBatchRequest [''a'', ''b'', ''c''] ]"
         and ?res0.0=noRoles and ?log0.0="[roleBatchRequest [''a'', ''b'', ''c''] ]"]
       a b c
  show ?thesis by (simp add: batchesOf_def ceilDiv_def)
qed

text \<open>
  C6, as amended. When the fetcher returns, every issued batch was answered; the roles
  returned are the parses of all role entries of the answers, in order of arrival and
  with repetitions kept; the organizations returned are keyed by id, and for an id seen
  several times the entry seen last is the one kept.
\<close>

theorem C6_roles_kept_orgs_last_wins:
  assumes "fetchRolesForPractitioners up ids log = (Inr res, log')"
  shows "length (answers up log (map roleBatchRequest (take 6 (batchesOf 50 ids))))
           = length (take 6 (batchesOf 50 ids))
         \<and> practitionerRoles res
             = map parsePractitionerRole
                 (roleEntries (entriesOf (answers up log
                    (map roleBatchRequest (take 6 (batchesOf 50 ids))))))
         \<and> organizations res
             = map_of (rev (map (\<lambda>og. (ro_id og, parseOrganization og))
                 (orgEntries (entriesOf (answers up log
                    (map roleBatchRequest (take 6 (batchesOf 50 ids))))))))"
  by (simp add: fetchRoles_ok(2)[OF assms] fetchRoles_ok(3)[OF assms] collectEntries_roles
                collectEntries_orgs noRoles_def)

theorem C6_roles_kept_orgs_last_wins_witness:
  "fetchRolesForPractitioners twoOrgUpstream [''p1''] []
     = (Inr \<lparr>practitionerRoles = [sampleRole],
              organizations = [''o1'' \<mapsto> parseOrganization (rawOrg ''o1'' ''Cabinet B'')]\<rparr>,
        [roleBatchRequest [''p1''] ])
   \<and> orgEntries (entriesOf (answers twoOrgUpstream []
         (map roleBatchRequest (take 6 (batchesOf 50 [''p1''])))))
      = [rawOrg ''o1'' ''Cabinet A'', rawOrg ''o1'' ''Cabinet B'']"
proof -
  have e: "fetchRolesForPractitioners twoOrgUpstream [''p1''] []
     = (Inr \<lparr>practitionerRoles = [sampleRole],
              organizations = [''o1'' \<mapsto> parseOrganization (rawOrg ''o1'' ''Cabinet B'')]\<rparr>,
        [roleBatchRequest [''p1''] ])"
    by (simp add: fetchRolesForPractitioners_def fetchRolesLoop.simps fhirFetch_def
                  twoOrgUpstream_def orNil_def sampleRole_def rawOrg_def)
  have b: "take 6 (batchesOf 50 [''p1'']) = [ [''p1''] ]"
    by (simp add: batchesOf_def ceilDiv_def)
  from C6_roles_kept_orgs_last_wins[OF e] e show ?thesis
    by (simp add: b twoOrgUpstream_def entriesOf_def orNil_def)
qed

text \<open>
  C6, as stated, fails for roles: with 51 identifiers (two batches) and an upstream
  that gives the role \<open>r1\<close> to each batch, the fetcher returns \<open>r1\<close> twice.
\<close>

theorem C6_roles_not_deduplicated_counterexample:
  "length (manyIds 51) = 51
   \<and> length (snd (fetchRolesForPractitioners sameRoleUpstream (manyIds 51) [])) = 2
   \<and> map r_id (practitionerRoles (projr (fst
        (fetchRolesForPractitioners sameRoleUpstream (manyIds 51) []))))
      = [''r1'', ''r1'']"
  by (simp add: fetchRolesForPractitioners_def fetchRolesLoop.simps fhirFetch_def
                sameRoleUpstream_def roleBundle_def orNil_def parsePractitionerRole_def
                rawRoleOf_def manyIds_def)

subsection \<open>Name plans\<close>

lemma attempted_prefix: "\<exists>n\<le>length plans. attempted mk stops up log plans = take n plans"
proof (induction plans arbitrary: log)
  case Nil
  then show ?case by simp
next
  case (Cons plan plans)
  from Cons[of "log @ [mk plan]"] obtain n where
    n: "n \<le> length plans" "attempted mk stops up (log @ [mk plan]) plans = take n plans"
    by blast
  have "attempted mk stops up log (plan # plans) = take (Suc 0) (plan # plans)
        \<or> attempted mk stops up log (plan # plans) = take (Suc n) (plan # plans)"
    using n by (simp split: http_result.splits)
  then show ?case using n(1)
    by (metis Suc_le_mono length_Cons le0 Suc_leI zero_less_Suc)
qed

lemma strategyLoop_p002_log:
  "snd (strategyLoop_p002 up n plans best log)
     = log @ map strategyRequest_p002 (attempted strategyRequest_p002 (stops_p002 n) up log plans)"
proof (induction plans arbitrary: best log)
  case Nil
  then show ?case by simp
next
  case (Cons plan plans)
  show ?case
  proof (cases "up log (strategyRequest_p002 plan)")
    case (HttpOk b)
    then have f: "fhirFetch up (strategyRequest_p002 plan) log
                    = (Inr b, log @ [strategyRequest_p002 plan])"
      by (simp add: fhirFetch_def)
    show ?thesis
      using Cons[of _ "log @ [strategyRequest_p002 plan]"] HttpOk
      by (auto simp: f Let_def stops_p002_def noEntries_def)
  next
    case (HttpError c msg)
    then show ?thesis by (simp add: fhirFetch_def)
  qed
qed

lemma searchByName_bundle_log:
  "snd (searchByName_bundle up name log)
     = log @ map planRequest (attempted planRequest anyHit up log (take 3 (fixedOrder name)))"
  by (auto simp: searchByName_bundle_def fixedOrder_def Let_def bindIO_def fhirFetch_def
                 retIO_def planRequest_def anyHit_def
           split: http_result.splits)

lemma strategyRequest_plans:
  "list_all (\<lambda>plan. strategyRequest_p002 plan = planRequest plan) (fixedOrder name)"
  by (simp add: fixedOrder_def strategyRequest_p002_def planRequest_def planFirstFamily_def
                planLastFamily_def planFamilyOnly_def planWholeName_def count200_def)

text \<open>White space: the cut into chunks gives the string back, no white space
  character is a prefix of another, and the chunks of a string cut at a chunk boundary
  are the chunks on each side.\<close>

lemma ws_length: "w \<in> set whiteSpaces \<Longrightarrow> w \<noteq> [] \<and> length w = utf8Length (hd w)"
  by (auto simp: whiteSpaces_def utf8Length_def)

lemma startsWith_split: "startsWith s w \<Longrightarrow> s = w @ drop (length w) s"
  unfolding startsWith_def by (metis append_take_drop_id)

lemma startsWith_self [simp]: "startsWith (w @ x) w"
  by (simp add: startsWith_def)

lemma startsWith_longer: "startsWith p w \<Longrightarrow> startsWith (p @ q) w"
proof -
  assume a: "startsWith p w"
  then have "length (take (length w) p) = length w" by (simp only: startsWith_def)
  then have "length w \<le> length p" by simp
  with a show ?thesis by (simp add: startsWith_def)
qed

lemma prefix_free:
  assumes "w \<in> set whiteSpaces" "w' \<in> set whiteSpaces" "startsWith (w @ x) w'"
  shows "w' = w"
proof -
  from ws_length[OF assms(1)] ws_length[OF assms(2)]
  have n: "w \<noteq> []" "w' \<noteq> []" and l: "length w = utf8Length (hd w)"
    "length w' = utf8Length (hd w')" by simp_all
  from assms(3) have t: "take (length w') (w @ x) = w'" by (simp add: startsWith_def)
  from n have "hd (take (length w') (w @ x)) = hd w"
    by (cases w; cases w') simp_all
  with t have "hd w' = hd w" by simp
  with l have "length w' = length w" by simp
  with t show ?thesis by simp
qed

lemma find_unique:
  assumes "x \<in> set xs" "P x" "\<And>y. y \<in> set xs \<Longrightarrow> P y \<Longrightarrow> y = x"
  shows "find P xs = Some x"
proof -
  from assms(1,2) have "find P xs \<noteq> None" by (auto simp: find_None_iff)
  then obtain y where y: "find P xs = Some y" by auto
  then have "y \<in> set xs \<and> P y" by (auto simp: find_Some_iff)
  with assms(3) have "y = x" by blast
  with y show ?thesis by simp
qed

lemma wsPrefix_Some: "wsPrefix s = Some w \<Longrightarrow> w \<in> set whiteSpaces \<and> startsWith s w"
  by (auto simp: wsPrefix_def find_Some_iff)

lemma wsPrefix_ws:
  assumes "w \<in> set whiteSpaces"
  shows "wsPrefix (w @ x) = Some w"
  unfolding wsPrefix_def
proof (rule find_unique)
  show "w \<in> set whiteSpaces" by (rule assms)
  show "startsWith (w @ x) w" by simp
  show "\<And>y. y \<in> set whiteSpaces \<Longrightarrow> startsWith (w @ x) y \<Longrightarrow> y = w"
    by (rule prefix_free[OF assms])
qed

lemma wsPrefix_None_prefix:
  assumes "wsPrefix (p @ q) = None"
  shows "wsPrefix p = None"
proof -
  from assms have "\<And>w. w \<in> set whiteSpaces \<Longrightarrow> \<not> startsWith (p @ q) w"
    by (simp add: wsPrefix_def find_None_iff)
  with startsWith_longer[of p _ q] have "\<And>w. w \<in> set whiteSpaces \<Longrightarrow> \<not> startsWith p w"
    by blast
  then show ?thesis by (simp add: wsPrefix_def find_None_iff)
qed

lemma chunks_ws:
  assumes "w \<in> set whiteSpaces"
  shows "chunks (w @ x) = WhiteSpace w # chunks x"
proof -
  from ws_length[OF assms] obtain c cs where w: "w = c # cs" by (cases w) auto
  have "chunks ((c # cs) @ x) = WhiteSpace (c # cs) # chunks x"
    using wsPrefix_ws[OF assms, of x] by (simp add: w)
  then show ?thesis by (simp add: w)
qed

lemma chunks_step:
  "s \<noteq> [] \<Longrightarrow>
     (\<exists>w. w \<in> set whiteSpaces \<and> wsPrefix s = Some w \<and> s = w @ drop (length w) s
          \<and> chunks s = WhiteSpace w # chunks (drop (length w) s))
     \<or> (wsPrefix s = None \<and> chunks s = Byte (hd s) # chunks (tl s))"
proof (cases "wsPrefix s")
  case None
  assume "s \<noteq> []"
  with None show ?thesis by (cases s) simp_all
next
  case (Some w)
  assume "s \<noteq> []"
  from wsPrefix_Some[OF Some] have w: "w \<in> set whiteSpaces" "startsWith s w" by simp_all
  from startsWith_split[OF w(2)] have s: "s = w @ drop (length w) s" .
  have "chunks (w @ drop (length w) s) = WhiteSpace w # chunks (drop (length w) s)"
    by (rule chunks_ws[OF w(1)])
  then have "chunks s = WhiteSpace w # chunks (drop (length w) s)"
    by (simp only: s[symmetric])
  with s w(1) Some show ?thesis by blast
qed

lemma unchunk_chunks: "unchunk (chunks s) = s"
proof (induction s rule: length_induct)
  case (1 s)
  show ?case
  proof (cases "s = []")
    case True
    then show ?thesis by (simp add: unchunk_def)
  next
    case False
    from chunks_step[OF False] show ?thesis
    proof (elim disjE exE conjE)
      fix w
      assume w: "w \<in> set whiteSpaces" "s = w @ drop (length w) s"
        "chunks s = WhiteSpace w # chunks (drop (length w) s)"
      from ws_length[OF w(1)] have "w \<noteq> []" by (rule conjunct1)
      then have "0 < length w" by simp
      with False have "length (drop (length w) s) < length s" by simp
      with 1 have "unchunk (chunks (drop (length w) s)) = drop (length w) s" by blast
      with w(3) have "unchunk (chunks s) = w @ drop (length w) s" by (simp add: unchunk_def)
      also have "\<dots> = s" using w(2) by (rule sym)
      finally show ?thesis .
    next
      assume b: "chunks s = Byte (hd s) # chunks (tl s)"
      from False have "length (tl s) < length s" by simp
      with 1 have "unchunk (chunks (tl s)) = tl s" by blast
      with b False show ?thesis by (simp add: unchunk_def)
    qed
  qed
qed

lemma chunks_suffix: "\<exists>s'. drop k (chunks s) = chunks s'"
proof (induction k arbitrary: s)
  case 0
  show ?case by (rule exI[of _ s]) simp
next
  case (Suc k)
  show ?case
  proof (cases "s = []")
    case True
    then show ?thesis by (intro exI[of _ "[]"]) simp
  next
    case False
    from chunks_step[OF False] obtain s1 c where "chunks s = c # chunks s1" by blast
    with Suc[of s1] show ?thesis by simp
  qed
qed

lemma chunks_prefix: "chunks s = cs1 @ cs2 \<Longrightarrow> chunks (unchunk cs1) = cs1"
proof (induction cs1 arbitrary: s)
  case Nil
  show ?case by (simp add: unchunk_def)
next
  case (Cons c cs1)
  then have ne: "s \<noteq> []" by auto
  from chunks_step[OF ne] show ?case
  proof (elim disjE exE conjE)
    fix w
    assume w: "w \<in> set whiteSpaces"
      "chunks s = WhiteSpace w # chunks (drop (length w) s)"
    with Cons.prems have c: "c = WhiteSpace w" and r: "chunks (drop (length w) s) = cs1 @ cs2"
      by simp_all
    from Cons.IH[OF r] have "chunks (unchunk cs1) = cs1" .
    with chunks_ws[OF w(1), of "unchunk cs1"] c show ?thesis by (simp add: unchunk_def)
  next
    assume n: "wsPrefix s = None" and b: "chunks s = Byte (hd s) # chunks (tl s)"
    with Cons.prems have c: "c = Byte (hd s)" and r: "chunks (tl s) = cs1 @ cs2" by simp_all
    from Cons.IH[OF r] have i: "chunks (unchunk cs1) = cs1" .
    from r have "tl s = unchunk cs1 @ unchunk cs2"
      using unchunk_chunks[of "tl s"] by (simp add: unchunk_def)
    with ne have "s = (hd s # unchunk cs1) @ unchunk cs2" by (cases s) simp_all
    with n have "wsPrefix (hd s # unchunk cs1) = None" by (metis wsPrefix_None_prefix)
    with i c show ?thesis by (simp add: unchunk_def)
  qed
qed

text \<open>The chunks of a trimmed string are the chunks of the string without the white
  space at both ends.\<close>

lemma chunks_trim:
  "chunks (trim s) = rev (dropWhile isWs (rev (dropWhile isWs (chunks s))))"
proof -
  let ?a = "dropWhile isWs (chunks s)"
  let ?b = "rev (dropWhile isWs (rev ?a))"
  obtain s' where s': "?a = chunks s'"
    using chunks_suffix[of "length (takeWhile isWs (chunks s))" s]
    by (auto simp: dropWhile_eq_drop)
  have "rev ?a = takeWhile isWs (rev ?a) @ dropWhile isWs (rev ?a)" by simp
  then have "rev (rev ?a) = rev (takeWhile isWs (rev ?a) @ dropWhile isWs (rev ?a))"
    by (rule arg_cong)
  then have "?a = ?b @ rev (takeWhile isWs (rev ?a))" by (simp only: rev_rev_ident rev_append)
  with s' have "chunks s' = ?b @ rev (takeWhile isWs (rev ?a))" by simp
  from chunks_prefix[OF this] show ?thesis by (simp add: trim_def)
qed

lemma splitWs_tokens:
  "cs = [] \<or> \<not> isWs (last cs) \<Longrightarrow> acc \<noteq> [] \<or> (cs \<noteq> [] \<and> \<not> isWs (hd cs))
     \<Longrightarrow> [] \<notin> set (splitWs acc cs)"
proof (induction acc cs rule: splitWs.induct)
  case (1 acc)
  then show ?case by simp
next
  case (2 acc w cs)
  from "2.prems" have acc: "acc \<noteq> []" by simp
  from "2.prems"(1) have cs: "cs \<noteq> []" "\<not> isWs (last cs)" by (auto split: if_splits)
  then have d: "dropWhile isWs cs \<noteq> []"
    by (metis dropWhile_eq_Nil_conv last_in_set)
  then have h: "\<not> isWs (hd (dropWhile isWs cs))" by (rule hd_dropWhile)
  have "last (dropWhile isWs cs) = last cs"
    using d by (metis last_appendR takeWhile_dropWhile_id)
  with cs have l: "\<not> isWs (last (dropWhile isWs cs))" by simp
  from "2.IH" l d h have "[] \<notin> set (splitWs [] (dropWhile isWs cs))" by simp
  with acc show ?case by simp
next
  case (3 acc c cs)
  from "3.prems"(1) have "cs = [] \<or> \<not> isWs (last cs)" by (auto split: if_splits)
  from "3.IH"[OF this] show ?case by simp
qed

lemma trim_ends:
  assumes "chunks (trim s) \<noteq> []"
  shows "\<not> isWs (hd (chunks (trim s)))" and "\<not> isWs (last (chunks (trim s)))"
proof -
  let ?u = "dropWhile isWs (chunks s)"
  let ?v = "dropWhile isWs (rev ?u)"
  from assms have v: "?v \<noteq> []" by (simp add: chunks_trim)
  have u: "?u \<noteq> []"
  proof
    assume a: "?u = []"
    have "?v = []" unfolding a by simp
    with v show False by blast
  qed
  have "last (chunks (trim s)) = hd ?v" by (simp add: chunks_trim v last_rev)
  then show "\<not> isWs (last (chunks (trim s)))" using hd_dropWhile[OF v] by simp
  have "hd (chunks (trim s)) = last ?v" by (simp add: chunks_trim v hd_rev)
  also have "\<dots> = last (rev ?u)" using v by (metis last_appendR takeWhile_dropWhile_id)
  also have "\<dots> = hd ?u" using u by (simp add: last_rev)
  finally show "\<not> isWs (hd (chunks (trim s)))" using hd_dropWhile[OF u] by simp
qed

text \<open>The tokens of a trimmed name of two tokens or more are not empty.\<close>

lemma tokens_nonempty:
  assumes "2 \<le> length (split_ws (trim s))"
  shows "[] \<notin> set (split_ws (trim s))"
proof (cases "chunks (trim s) = []")
  case True
  with assms show ?thesis by (simp add: split_ws_def)
next
  case False
  from trim_ends[OF False] False show ?thesis
    unfolding split_ws_def by (intro splitWs_tokens) auto
qed

lemma join_nonempty: "xs \<noteq> [] \<Longrightarrow> hd xs \<noteq> [] \<Longrightarrow> join sep xs \<noteq> []"
proof (cases xs)
  case Nil
  assume "xs \<noteq> []"
  with Nil show ?thesis by simp
next
  case (Cons x ys)
  assume "hd xs \<noteq> []"
  with Cons show ?thesis by (cases ys) simp_all
qed

lemma plans_familyGiven:
  assumes "2 \<le> length (split_ws (trim name))"
  shows "familyGiven (planFirstFamily (split_ws (trim name)))"
    and "familyGiven (planLastFamily (split_ws (trim name)))"
proof -
  let ?p = "split_ws (trim name)"
  have ne: "\<And>t. t \<in> set ?p \<Longrightarrow> t \<noteq> []" using tokens_nonempty[OF assms] by metis
  from assms have a: "?p ! 0 \<in> set ?p" "?p ! 1 \<in> set ?p" "?p ! (length ?p - 1) \<in> set ?p"
    by (auto intro!: nth_mem)
  have d: "drop 1 ?p \<noteq> []" "hd (drop 1 ?p) = ?p ! 1" using assms by (simp_all add: hd_drop_conv_nth)
  have b: "butlast ?p \<noteq> []" "hd (butlast ?p) = ?p ! 0" using assms
    by (cases ?p; cases "tl ?p"; simp)+
  show "familyGiven (planFirstFamily ?p)"
    using ne[OF a(1)] join_nonempty[OF d(1), of "'' ''"] ne[OF a(2)] d(2)
    by (simp add: familyGiven_def planFirstFamily_def hasKey_def truthy_def)
  show "familyGiven (planLastFamily ?p)"
    using ne[OF a(3)] join_nonempty[OF b(1), of "'' ''"] ne[OF a(1)] b(2)
    by (simp add: familyGiven_def planLastFamily_def hasKey_def truthy_def)
qed

lemma plans_stop:
  assumes "2 \<le> length (split_ws (trim name))"
  shows "stops_p002 n (planFirstFamily (split_ws (trim name)))"
    and "stops_p002 n (planLastFamily (split_ws (trim name)))"
  using plans_familyGiven[OF assms] by (simp_all add: stops_p002_def familyGiven_def)

lemma fixedOrder_familyGivenFirst: "familyGivenFirst (fixedOrder name)"
proof (cases "2 \<le> length (split_ws (trim name))")
  case True
  from plans_familyGiven[OF True] True show ?thesis
    by (simp add: fixedOrder_def familyGiven_def planFamilyOnly_def planWholeName_def
                  hasKey_def truthy_def)
next
  case False
  then show ?thesis
    by (simp add: fixedOrder_def familyGiven_def planFamilyOnly_def planWholeName_def
                  hasKey_def truthy_def)
qed

text \<open>The bundle with the most entries, one bundle more.\<close>

lemma maxCount_append: "maxCount (bs @ [b]) = max (maxCount bs) (entryCount b)"
  by (induction bs) (simp_all add: maxCount_def max.assoc max.commute)

lemma maxCount_ge: "b \<in> set bs \<Longrightarrow> entryCount b \<le> maxCount bs"
  by (induction bs) (auto simp: maxCount_def)

lemma maxCount_attained: "0 < maxCount bs \<Longrightarrow> \<exists>b\<in>set bs. entryCount b = maxCount bs"
  by (induction bs) (auto simp: maxCount_def max_def split: if_splits)

lemma find_app:
  "find P (xs @ ys) = (case find P xs of None \<Rightarrow> find P ys | Some x \<Rightarrow> Some x)"
  by (induction xs) simp_all

lemma largestBundle_append:
  "largestBundle (bs @ [b]) = (if maxCount bs < entryCount b then Some b else largestBundle bs)"
proof (cases "maxCount bs < entryCount b")
  case True
  then have m: "maxCount (bs @ [b]) = entryCount b" by (simp add: maxCount_append)
  have "find (\<lambda>x. entryCount x = entryCount b) bs = None"
    using True maxCount_ge[of _ bs] by (fastforce simp: find_None_iff)
  with True m show ?thesis by (simp add: largestBundle_def find_app)
next
  case False
  then have m: "maxCount (bs @ [b]) = maxCount bs" by (simp add: maxCount_append)
  show ?thesis
  proof (cases "maxCount bs = 0")
    case True
    with False m show ?thesis by (simp add: largestBundle_def)
  next
    case pos: False
    then obtain x where "x \<in> set bs" "entryCount x = maxCount bs"
      using maxCount_attained[of bs] by auto
    then have "find (\<lambda>x. entryCount x = maxCount bs) bs \<noteq> None"
      by (auto simp: find_None_iff)
    with False m pos show ?thesis by (auto simp: largestBundle_def find_app)
  qed
qed

text \<open>What the loop of the older revision returns: the exception of the call that
  failed, else the bundle with the most entries out of those of the plans attempted,
  when the plans with a family and a given name come first.\<close>

lemma strategyLoop_p002_result:
  assumes "familyGivenFirst plans"
      and "(\<exists>p\<in>set plans. familyGiven p) \<longrightarrow> maxCount seen = 0"
  shows "fst (strategyLoop_p002 up n plans (largestBundle seen, maxCount seen) log)
     = (case firstFailure up log
               (map strategyRequest_p002
                  (attempted strategyRequest_p002 (stops_p002 n) up log plans)) of
          Some e \<Rightarrow> Inl e
        | None \<Rightarrow> Inr (largestBundle
                    (seen @ answers up log
                       (map strategyRequest_p002
                          (attempted strategyRequest_p002 (stops_p002 n) up log plans)))))"
  using assms
proof (induction plans arbitrary: seen log)
  case Nil
  then show ?case by simp
next
  case (Cons p ps)
  let ?r = "strategyRequest_p002 p"
  show ?case
  proof (cases "up log ?r")
    case (HttpError c msg)
    then show ?thesis by (simp add: fhirFetch_def)
  next
    case (HttpOk b)
    then have f: "fhirFetch up ?r log = (Inr b, log @ [?r])" by (simp add: fhirFetch_def)
    have ec: "length (orNil (b_entry b)) = entryCount b" by (simp add: entryCount_def)
    have ne: "noEntries b \<longleftrightarrow> entryCount b = 0" by (simp add: noEntries_def entryCount_def)
    show ?thesis
    proof (cases "0 < entryCount b \<and> familyGiven p")
      case True
      with Cons.prems(2) have "maxCount seen = 0" by auto
      with True have "largestBundle (seen @ [b]) = Some b" by (simp add: largestBundle_append)
      with True HttpOk show ?thesis
        by (simp add: f ec ne Let_def stops_p002_def familyGiven_def)
    next
      case False
      let ?best' = "(if maxCount seen < entryCount b then (Some b, entryCount b)
                     else (largestBundle seen, maxCount seen))"
      have best: "?best' = (largestBundle (seen @ [b]), maxCount (seen @ [b]))"
        by (simp add: largestBundle_append maxCount_append max_def)
      show ?thesis
      proof (cases "0 < entryCount b \<and> hasKey ''family'' p \<and> \<not> hasKey ''given'' p \<and> n = 1")
        case True
        with False HttpOk show ?thesis
          by (simp add: f ec ne Let_def stops_p002_def familyGiven_def largestBundle_append)
      next
        case go: False
        from False go have ns: "\<not> (\<not> noEntries b \<and> stops_p002 n p)"
          by (auto simp: ne stops_p002_def familyGiven_def)
        have step: "strategyLoop_p002 up n (p # ps) (largestBundle seen, maxCount seen) log
              = strategyLoop_p002 up n ps
                  (largestBundle (seen @ [b]), maxCount (seen @ [b])) (log @ [?r])"
          using False go best by (auto simp: f ec Let_def familyGiven_def)
        have h1: "familyGivenFirst ps" using Cons.prems(1) by simp
        have h2: "(\<exists>q\<in>set ps. familyGiven q) \<longrightarrow> maxCount (seen @ [b]) = 0"
        proof
          assume q: "\<exists>q\<in>set ps. familyGiven q"
          with Cons.prems(1) have fg: "familyGiven p" by auto
          with False have "entryCount b = 0" by simp
          moreover from q Cons.prems(2) have "maxCount seen = 0" by auto
          ultimately show "maxCount (seen @ [b]) = 0" by (simp add: maxCount_append)
        qed
        have att: "attempted strategyRequest_p002 (stops_p002 n) up log (p # ps)
                     = p # attempted strategyRequest_p002 (stops_p002 n) up (log @ [?r]) ps"
          using ns HttpOk by auto
        show ?thesis
          unfolding step att using Cons.IH[OF h1 h2, of "log @ [?r]"] HttpOk
          by (simp cong: option.case_cong del: strategyLoop_p002.simps)
      qed
    qed
  qed
qed

lemma firstFailure_cong_mk:
  "list_all (\<lambda>plan. mk plan = mk' plan) plans \<Longrightarrow> map mk plans = map mk' plans"
  by (induction plans) auto

lemma list_all_take: "list_all P xs \<Longrightarrow> list_all P (take n xs)"
  by (auto simp: list_all_iff dest: in_set_takeD)

lemma searchByName_bundle_result:
  "fst (searchByName_bundle up name log)
     = (case firstFailure up log
               (map planRequest
                  (attempted planRequest anyHit up log (take 3 (fixedOrder name)))) of
          Some e \<Rightarrow> Inl e
        | None \<Rightarrow> Inr (last (answers up log
                    (map planRequest
                       (attempted planRequest anyHit up log (take 3 (fixedOrder name)))))))"
  by (auto simp: searchByName_bundle_def fixedOrder_def Let_def bindIO_def fhirFetch_def
                 retIO_def planRequest_def anyHit_def
           split: http_result.splits)

lemma attempted_cong_mk:
  "list_all (\<lambda>plan. mk plan = mk' plan) plans \<Longrightarrow>
     attempted mk stops up log plans = attempted mk' stops up log plans"
  by (induction plans arbitrary: log) (auto split: http_result.splits)

lemma map_cong_mk:
  assumes "list_all (\<lambda>plan. mk plan = mk' plan) plans"
  shows "map mk (take n plans) = map mk' (take n plans)"
  using assms by (auto simp: list_all_iff dest: in_set_takeD)

lemma searchByName_bundle_p002_log:
  "snd (searchByName_bundle_p002 up name log)
     = log @ map planRequest
         (attempted planRequest (stops_p002 (length (split_ws (trim name)))) up log
            (fixedOrder name))"
proof -
  let ?n = "length (split_ws (trim name))"
  have s: "strategies_p002 name = fixedOrder name"
    by (simp add: strategies_p002_def fixedOrder_def Let_def)
  have a: "attempted strategyRequest_p002 (stops_p002 ?n) up log (fixedOrder name)
             = attempted planRequest (stops_p002 ?n) up log (fixedOrder name)"
    by (rule attempted_cong_mk) (rule strategyRequest_plans)
  obtain k where k: "k \<le> length (fixedOrder name)"
      "attempted planRequest (stops_p002 ?n) up log (fixedOrder name) = take k (fixedOrder name)"
    using attempted_prefix by blast
  have m: "map strategyRequest_p002 (take k (fixedOrder name))
             = map planRequest (take k (fixedOrder name))"
    by (rule map_cong_mk[OF strategyRequest_plans])
  have "snd (searchByName_bundle_p002 up name log)
          = log @ map strategyRequest_p002
              (attempted planRequest (stops_p002 ?n) up log (fixedOrder name))"
    by (simp add: searchByName_bundle_p002_def strategyLoop_p002_log s a)
  also have "\<dots> = log @ map planRequest
              (attempted planRequest (stops_p002 ?n) up log (fixedOrder name))"
    unfolding k(2) m ..
  finally show ?thesis .
qed

lemma searchByName_bundle_p002_result:
  "fst (searchByName_bundle_p002 up name log)
     = (case firstFailure up log
               (map planRequest
                  (attempted planRequest (stops_p002 (length (split_ws (trim name)))) up log
                     (fixedOrder name))) of
          Some e \<Rightarrow> Inl e
        | None \<Rightarrow> Inr (largestBundle (answers up log
                    (map planRequest
                       (attempted planRequest (stops_p002 (length (split_ws (trim name))))
                          up log (fixedOrder name))))))"
proof -
  let ?n = "length (split_ws (trim name))"
  have s: "strategies_p002 name = fixedOrder name"
    by (simp add: strategies_p002_def fixedOrder_def Let_def)
  have a: "attempted strategyRequest_p002 (stops_p002 ?n) up log (fixedOrder name)
             = attempted planRequest (stops_p002 ?n) up log (fixedOrder name)"
    by (rule attempted_cong_mk) (rule strategyRequest_plans)
  obtain k where k:
      "attempted planRequest (stops_p002 ?n) up log (fixedOrder name) = take k (fixedOrder name)"
    using attempted_prefix by blast
  have m: "map strategyRequest_p002 (take k (fixedOrder name))
             = map planRequest (take k (fixedOrder name))"
    by (rule map_cong_mk[OF strategyRequest_plans])
  have e: "largestBundle [] = None" "maxCount [] = 0"
    by (simp_all add: largestBundle_def maxCount_def)
  have req: "map strategyRequest_p002
               (attempted strategyRequest_p002 (stops_p002 ?n) up log (fixedOrder name))
             = map planRequest
                 (attempted planRequest (stops_p002 ?n) up log (fixedOrder name))"
    by (simp only: a k m)
  from strategyLoop_p002_result[of "fixedOrder name" "[]" up ?n log,
         OF fixedOrder_familyGivenFirst]
  show ?thesis
    by (simp add: searchByName_bundle_p002_def s e req cong: option.case_cong)
qed

text \<open>
  C2, as amended. Both revisions take their plans from the fixed order (first token as
  family and the rest as given; last token as family and the leading tokens as given;
  first token alone as family; the whole name unstructured; for a single token, the name
  as family and then the name unstructured), at most four, and the calls issued are the
  requests of an initial segment of that order. The tokens are those of
  \<^verbatim>\<open>name.trim().split(/\s+/)\<close>, cut at every white space character of JavaScript.
  \<^item> The current revision takes the first three plans only, and stops after the first
    plan whose bundle has an entry (or whose call fails); it returns the bundle of the
    last plan it attempted, or throws the exception of the call that failed.
  \<^item> The revision that keeps the largest bundle goes on after a plan with entries,
    unless that plan has a family and a given name, or has a family name and the name is
    a single token; it returns the first of the bundles with the most entries out of
    those of the plans it attempted (none when no bundle has an entry), or throws the
    exception of the call that failed.
  \<^item> In both, when the first plan of a name of two tokens or more returns an entry it is
    the only call, and its bundle is returned; when it returns none and the second
    returns an entry, these two are the only calls, and the bundle of the second is
    returned.
\<close>

theorem C2_name_plans:
  "strategies_p002 name = fixedOrder name \<and> length (fixedOrder name) \<le> 4
   \<and> snd (searchByName_bundle up name log)
       = log @ map planRequest
           (attempted planRequest anyHit up log (take 3 (fixedOrder name)))
   \<and> fst (searchByName_bundle up name log)
       = (case firstFailure up log
                 (map planRequest
                    (attempted planRequest anyHit up log (take 3 (fixedOrder name)))) of
            Some e \<Rightarrow> Inl e
          | None \<Rightarrow> Inr (last (answers up log
                      (map planRequest
                         (attempted planRequest anyHit up log (take 3 (fixedOrder name)))))))
   \<and> snd (searchByName_bundle_p002 up name log)
       = log @ map planRequest
           (attempted planRequest (stops_p002 (length (split_ws (trim name)))) up log
              (fixedOrder name))
   \<and> fst (searchByName_bundle_p002 up name log)
       = (case firstFailure up log
                 (map planRequest
                    (attempted planRequest (stops_p002 (length (split_ws (trim name)))) up log
                       (fixedOrder name))) of
            Some e \<Rightarrow> Inl e
          | None \<Rightarrow> Inr (largestBundle (answers up log
                      (map planRequest
                         (attempted planRequest (stops_p002 (length (split_ws (trim name))))
                            up log (fixedOrder name))))))
   \<and> (\<exists>k\<le>3. attempted planRequest anyHit up log (take 3 (fixedOrder name))
                 = take k (fixedOrder name))
   \<and> (\<exists>k\<le>4. attempted planRequest (stops_p002 (length (split_ws (trim name)))) up log
                   (fixedOrder name) = take k (fixedOrder name))
   \<and> (2 \<le> length (split_ws (trim name))
        \<and> up log (planRequest (planFirstFamily (split_ws (trim name)))) = HttpOk b
        \<and> \<not> noEntries b
      \<longrightarrow> searchByName_bundle up name log
            = (Inr b, log @ [planRequest (planFirstFamily (split_ws (trim name)))])
          \<and> searchByName_bundle_p002 up name log
            = (Inr (Some b), log @ [planRequest (planFirstFamily (split_ws (trim name)))]))
   \<and> (2 \<le> length (split_ws (trim name))
        \<and> up log (planRequest (planFirstFamily (split_ws (trim name)))) = HttpOk b1
        \<and> noEntries b1
        \<and> up (log @ [planRequest (planFirstFamily (split_ws (trim name)))])
              (planRequest (planLastFamily (split_ws (trim name)))) = HttpOk b2
        \<and> \<not> noEntries b2
      \<longrightarrow> searchByName_bundle up name log
            = (Inr b2, log @ [planRequest (planFirstFamily (split_ws (trim name))),
                              planRequest (planLastFamily (split_ws (trim name)))])
          \<and> searchByName_bundle_p002 up name log
            = (Inr (Some b2), log @ [planRequest (planFirstFamily (split_ws (trim name))),
                                     planRequest (planLastFamily (split_ws (trim name)))]))"
proof -
  let ?parts = "split_ws (trim name)"
  have s: "strategies_p002 name = fixedOrder name"
    by (simp add: strategies_p002_def fixedOrder_def Let_def)
  have l: "length (fixedOrder name) \<le> 4" by (simp add: fixedOrder_def)
  have k1: "\<exists>k\<le>3. attempted planRequest anyHit up log (take 3 (fixedOrder name))
                 = take k (fixedOrder name)"
  proof -
    obtain k where k: "k \<le> length (take 3 (fixedOrder name))"
      "attempted planRequest anyHit up log (take 3 (fixedOrder name))
         = take k (take 3 (fixedOrder name))"
      using attempted_prefix by blast
    from k(1) have k3: "k \<le> 3" by simp
    then have "take k (take 3 (fixedOrder name)) = take k (fixedOrder name)"
      by (simp add: min_absorb1)
    with k(2) k3 show ?thesis by auto
  qed
  have k2: "\<exists>k\<le>4. attempted planRequest (stops_p002 (length ?parts)) up log
                   (fixedOrder name) = take k (fixedOrder name)"
    using attempted_prefix[of "fixedOrder name" planRequest "stops_p002 (length ?parts)" up log] l
    by (meson le_trans)
  have one: "largestBundle [b] = Some b" if "\<not> noEntries b" for b
    using that by (simp add: largestBundle_def maxCount_def entryCount_def noEntries_def)
  have two: "largestBundle [b1, b2] = Some b2" if "noEntries b1" "\<not> noEntries b2" for b1 b2
    using that by (simp add: largestBundle_def maxCount_def entryCount_def noEntries_def)
  have h1: "searchByName_bundle up name log
              = (Inr b, log @ [planRequest (planFirstFamily ?parts)])
          \<and> searchByName_bundle_p002 up name log
              = (Inr (Some b), log @ [planRequest (planFirstFamily ?parts)])"
    if "2 \<le> length ?parts" "up log (planRequest (planFirstFamily ?parts)) = HttpOk b"
       "\<not> noEntries b"
    using that plans_stop(1)[OF that(1)] one[OF that(3)]
    by (simp add: prod_eq_iff searchByName_bundle_log searchByName_bundle_p002_log
                  searchByName_bundle_result searchByName_bundle_p002_result
                  fixedOrder_def anyHit_def)
  have h2: "searchByName_bundle up name log
            = (Inr b2, log @ [planRequest (planFirstFamily ?parts),
                              planRequest (planLastFamily ?parts)])
          \<and> searchByName_bundle_p002 up name log
            = (Inr (Some b2), log @ [planRequest (planFirstFamily ?parts),
                                     planRequest (planLastFamily ?parts)])"
    if "2 \<le> length ?parts" "up log (planRequest (planFirstFamily ?parts)) = HttpOk b1"
       "noEntries b1"
       "up (log @ [planRequest (planFirstFamily ?parts)])
           (planRequest (planLastFamily ?parts)) = HttpOk b2"
       "\<not> noEntries b2"
    using that plans_stop(2)[OF that(1)] two[OF that(3,5)]
    by (simp add: prod_eq_iff searchByName_bundle_log searchByName_bundle_p002_log
                  searchByName_bundle_result searchByName_bundle_p002_result
                  fixedOrder_def anyHit_def)
  from s l k1 k2 h1 h2 searchByName_bundle_log searchByName_bundle_p002_log
    searchByName_bundle_result searchByName_bundle_p002_result
  show ?thesis by blast
qed

lemma dupontMarie_tokens: "split_ws (trim ''Dupont Marie'') = [''Dupont'', ''Marie'']"
  by code_simp

lemma dupontNbspMarie_tokens: "split_ws (trim dupontNbspMarie) = [''Dupont'', ''Marie'']"
  by code_simp

lemma dupontMarie_order: "fixedOrder ''Dupont Marie'' = dupontMarie"
  by (simp add: fixedOrder_def dupontMarie_tokens dupontMarie_def planFirstFamily_def
                planLastFamily_def planFamilyOnly_def planWholeName_def)

text \<open>
  C2, as stated, fails on the revision that keeps the largest bundle: for "Dupont Marie"
  and an upstream that finds one practitioner by family name alone and two by the
  unstructured name, the family-only plan (the third) returns an entry and the
  whole-name plan is still fetched: four calls, the last one after the first non-empty
  result, and the bundle returned is that of the fourth plan, which has more entries.
\<close>

theorem C2_name_plans_counterexample:
  "searchByName_bundle_p002 broadUpstream ''Dupont Marie'' []
     = (Inr (Some (practitionerBundle [''p1'', ''p2''])), map planRequest dupontMarie)
   \<and> broadUpstream (map planRequest (take 2 dupontMarie)) (planRequest (dupontMarie ! 2))
       = HttpOk (practitionerBundle [''p1''])
   \<and> \<not> noEntries (practitionerBundle [''p1''])"
proof -
  have a: "searchByName_bundle_p002 broadUpstream ''Dupont Marie'' []
     = (Inr (Some (practitionerBundle [''p1'', ''p2''])), map planRequest dupontMarie)"
    by code_simp
  have b: "broadUpstream (map planRequest (take 2 dupontMarie)) (planRequest (dupontMarie ! 2))
       = HttpOk (practitionerBundle [''p1''])"
    by code_simp
  have c: "\<not> noEntries (practitionerBundle [''p1''])"
    by (simp add: noEntries_def practitionerBundle_def orNil_def)
  from a b c show ?thesis by simp
qed

theorem C2_name_plans_witness:
  "split_ws (trim dupontNbspMarie) = [''Dupont'', ''Marie'']
   \<and> everyoneUpstream [] (planRequest (planFirstFamily [''Dupont'', ''Marie'']))
       = HttpOk (practitionerBundle [''p1''])
   \<and> \<not> noEntries (practitionerBundle [''p1''])
   \<and> searchByName_bundle everyoneUpstream dupontNbspMarie []
       = (Inr (practitionerBundle [''p1'']),
          [Search ''Practitioner''
             [(''family'', ''Dupont''), (''given'', ''Marie''), (''_count'', ''200'')] ])
   \<and> searchByName_bundle_p002 everyoneUpstream dupontNbspMarie []
       = (Inr (Some (practitionerBundle [''p1''])),
          [Search ''Practitioner''
             [(''family'', ''Dupont''), (''given'', ''Marie''), (''_count'', ''200'')] ])"
proof -
  have a: "2 \<le> length (split_ws (trim dupontNbspMarie))"
    by (simp add: dupontNbspMarie_tokens)
  have b: "everyoneUpstream [] (planRequest (planFirstFamily (split_ws (trim dupontNbspMarie))))
             = HttpOk (practitionerBundle [''p1''])"
    by (simp add: everyoneUpstream_def)
  have c: "\<not> noEntries (practitionerBundle [''p1''])"
    by (simp add: noEntries_def practitionerBundle_def orNil_def)
  let ?A = "planRequest (planFirstFamily (split_ws (trim dupontNbspMarie)))"
  from C2_name_plans[of dupontNbspMarie everyoneUpstream "[]" "practitionerBundle [''p1'']"
         emptyBundle emptyBundle]
  have "2 \<le> length (split_ws (trim dupontNbspMarie))
        \<and> everyoneUpstream [] ?A = HttpOk (practitionerBundle [''p1''])
        \<and> \<not> noEntries (practitionerBundle [''p1''])
      \<longrightarrow> searchByName_bundle everyoneUpstream dupontNbspMarie []
            = (Inr (practitionerBundle [''p1'']), [] @ [?A])
          \<and> searchByName_bundle_p002 everyoneUpstream dupontNbspMarie []
            = (Inr (Some (practitionerBundle [''p1''])), [] @ [?A])"
    by blast
  with a b c have "searchByName_bundle everyoneUpstream dupontNbspMarie []
            = (Inr (practitionerBundle [''p1'']), [] @ [?A])
          \<and> searchByName_bundle_p002 everyoneUpstream dupontNbspMarie []
            = (Inr (Some (practitionerBundle [''p1''])), [] @ [?A])"
    by blast
  moreover have "?A = Search ''Practitioner''
            [(''family'', ''Dupont''), (''given'', ''Marie''), (''_count'', ''200'')]"
    by (simp add: dupontNbspMarie_tokens planRequest_def planFirstFamily_def
                  practitionerQuery_def count200_def)
  ultimately show ?thesis using b c by (simp add: dupontNbspMarie_tokens)
qed

subsection \<open>Reverse lookup: the cap on the result list\<close>

lemma sliceTo_capped: "0 \<le> n \<Longrightarrow> length (sliceTo xs (Num n)) \<le> nat n"
  by simp

lemma sliceTo_NaN: "sliceTo xs NaN = []"
  by simp

lemma sliceTo_subset: "set (sliceTo xs c) \<subseteq> set xs"
  by (cases c) (auto dest: in_set_takeD)

lemma matchedLoop_runBatches:
  "matchedLoop up q pids i acc log =
     runBatches up collectMatched
       (batchRequests (practBatchRequest q) 50 i (min (length pids) 250) pids) acc log"
proof (induction up q pids i acc log rule: matchedLoop.induct)
  case (1 up q pids i acc log)
  let ?m = "min (length pids) 250"
  show ?case
  proof (cases "i < length pids \<and> i < 50 * 5")
    case True
    then have s: "startsFrom 50 i ?m = i # startsFrom 50 (i + 50) ?m"
      by (intro startsFrom_step) auto
    let ?r = "practBatchRequest q (take 50 (drop i pids))"
    have r: "batchRequests (practBatchRequest q) 50 i ?m pids
               = ?r # batchRequests (practBatchRequest q) 50 (i + 50) ?m pids"
      by (simp add: batchRequests_def s)
    show ?thesis
    proof (cases "up log ?r")
      case (HttpOk b)
      then have f: "fhirFetch up ?r log = (Inr b, log @ [?r])" by (simp add: fhirFetch_def)
      have "matchedLoop up q pids i acc log =
              matchedLoop up q pids (i + 50) (collectMatched acc b) (log @ [?r])"
        using True by (subst matchedLoop.simps) (simp add: f collectMatched_def)
      also have "\<dots> = runBatches up collectMatched
                         (batchRequests (practBatchRequest q) 50 (i + 50) ?m pids)
                         (collectMatched acc b) (log @ [?r])"
        using "1.IH"[OF True f[symmetric] refl] by (simp add: collectMatched_def)
      finally show ?thesis by (simp add: r runBatches_Cons HttpOk del: runBatches.simps)
    next
      case (HttpError c msg)
      then have f: "fhirFetch up ?r log = (Inl (FhirApiError c (take 200 msg)), log @ [?r])"
        by (simp add: fhirFetch_def)
      have "matchedLoop up q pids i acc log = (Inl (FhirApiError c (take 200 msg)), log @ [?r])"
        using True by (subst matchedLoop.simps) (simp add: f)
      then show ?thesis by (simp add: r runBatches_Cons HttpError del: runBatches.simps)
    qed
  next
    case False
    then have "startsFrom 50 i ?m = []"
      by (intro startsFrom_done) auto
    with False show ?thesis
      by (subst matchedLoop.simps) (auto simp: batchRequests_def)
  qed
qed

lemma foldl_collectMatched:
  "foldl collectMatched acc bs = acc @ map asPractitioner (entriesOf bs)"
  by (induction bs arbitrary: acc) (simp_all add: entriesOf_def collectMatched_def)

lemma matchedLoop_ok:
  assumes "matchedLoop up q pids 0 [] log = (Inr matched, log')"
  shows "log' = log @ map (practBatchRequest q) (take 5 (batchesOf 50 pids))"
    and "matched = map asPractitioner
           (entriesOf (answers up log (map (practBatchRequest q) (take 5 (batchesOf 50 pids)))))"
proof -
  have r: "batchRequests (practBatchRequest q) 50 0 (min (length pids) 250) pids
             = map (practBatchRequest q) (take 5 (batchesOf 50 pids))"
    using batchRequests_0[of 50 "practBatchRequest q" pids 5] by simp
  from assms have "runBatches up collectMatched
                     (map (practBatchRequest q) (take 5 (batchesOf 50 pids))) [] log
                   = (Inr matched, log')"
    by (simp add: matchedLoop_runBatches r)
  from runBatches_ok[OF this]
  show "log' = log @ map (practBatchRequest q) (take 5 (batchesOf 50 pids))"
    and "matched = map asPractitioner
           (entriesOf (answers up log (map (practBatchRequest q) (take 5 (batchesOf 50 pids)))))"
    by (simp_all add: foldl_collectMatched)
qed

lemma withRoles_truncate [simp]: "practitioner.truncate (withRoles m p) = p"
  by (simp add: withRoles_def practitioner.defs merged.defs)

lemma batchesOf_Nil [simp]: "batchesOf B [] = []"
  by (cases B) (simp_all add: batchesOf_def ceilDiv_def)

text \<open>What holds of the reverse lookup for every page size: a response has status 200
  and no upstream total, its total is the number of its results, and each result is a
  practitioner that the upstream returned to one of the qualification-constrained
  queries of phase 3, with roles attached.\<close>

lemma reverse_lookup_results:
  assumes "searchBySpecialtyAndCity up q city count log = (Inr r, log')"
  shows "status r = 200 \<and>
         (\<exists>env log2 pids. body r = Envelope env \<and> totalFhir env = None
            \<and> total env = length (results env)
            \<and> log' = log2 @ map (practBatchRequest q) (take 5 (batchesOf 50 pids))
            \<and> practitioner.truncate ` set (results env)
                 \<subseteq> asPractitioner ` set (entriesOf (answers up log2
                       (map (practBatchRequest q) (take 5 (batchesOf 50 pids))))))"
    (is ?goal)
proof -
  have final: ?goal
    if "r = envelopeOf rs None msg None"
       "log' = log2 @ map (practBatchRequest q) (take 5 (batchesOf 50 pids))"
       "practitioner.truncate ` set rs
          \<subseteq> asPractitioner ` set (entriesOf (answers up log2
                 (map (practBatchRequest q) (take 5 (batchesOf 50 pids)))))"
    for rs msg log2 pids
  proof -
    let ?env = "\<lparr>total = length rs, totalFhir = None, results = rs, message = msg,
                  nextPage = None\<rparr>"
    have "status r = 200" "body r = Envelope ?env"
      using that(1) by (simp_all add: envelopeOf_def jsonResponse_def)
    moreover have "totalFhir ?env = None" "total ?env = length (results ?env)"
      "results ?env = rs" by simp_all
    ultimately show ?thesis using that(2,3) by metis
  qed
  have sub: "\<And>byPract matched. practitioner.truncate `
          set (sliceTo (map (withRoles byPract) matched) count) \<subseteq> set matched"
    using sliceTo_subset by fastforce
  note defs = searchBySpecialtyAndCity_def bindIO_def retIO_def
  show ?thesis
  proof (cases "fhirFetch up (organizationQuery city) log")
    case (Pair v l1)
    show ?thesis
    proof (cases v)
      case (Inl e)
      with Pair assms show ?thesis by (simp add: defs)
    next
      case (Inr ob)
      show ?thesis
      proof (cases "noEntries ob")
        case True
        with Pair Inr assms have "r = envelopeOf [] None (Some (noStructureMessage city)) None"
          and "log' = l1"
          by (simp_all add: defs)
        then show ?thesis by (intro final[of "[]" _ log' "[]"]) simp_all
      next
        case False
        obtain v2 l2 where p2: "(if truthy (nextLink ob)
                    then bindIO (fhirFetch up (Follow (orEmpty (nextLink ob))))
                           (\<lambda>nb. retIO (orNil (b_entry ob) @ orNil (b_entry nb)))
                    else retIO (orNil (b_entry ob))) l1 = (v2, l2)"
          by (cases "(if truthy (nextLink ob)
                    then bindIO (fhirFetch up (Follow (orEmpty (nextLink ob))))
                           (\<lambda>nb. retIO (orNil (b_entry ob) @ orNil (b_entry nb)))
                    else retIO (orNil (b_entry ob))) l1") auto
        show ?thesis
        proof (cases v2)
          case (Inl e)
          with Pair Inr False p2 assms show ?thesis by (simp add: defs)
        next
          case all: (Inr allOrgEntries)
          obtain orgs orgIds where oi: "orgIndex allOrgEntries = (orgs, orgIds)"
            by (cases "orgIndex allOrgEntries") auto
          obtain v3 l3 where p3: "orgRolesLoop up orgs (take (50 * 6) orgIds) 0 ([], Map.empty) l2
                                    = (v3, l3)"
            by (cases "orgRolesLoop up orgs (take (50 * 6) orgIds) 0 ([], Map.empty) l2") auto
          show ?thesis
          proof (cases v3)
            case (Inl e)
            with Pair Inr False p2 all oi p3 assms show ?thesis by (simp add: defs)
          next
            case st: (Inr st)
            obtain pids byPract where stp: "st = (pids, byPract)" by (cases st) auto
            show ?thesis
            proof (cases "pids = []")
              case True
              with Pair Inr False p2 all oi p3 st stp assms
              have "r = envelopeOf [] None None None" and "log' = l3" by (simp_all add: defs)
              then show ?thesis by (intro final[of "[]" _ log' "[]"]) simp_all
            next
              case ne: False
              obtain v4 l4 where p4: "matchedLoop up q pids 0 [] l3 = (v4, l4)"
                by (cases "matchedLoop up q pids 0 [] l3") auto
              show ?thesis
              proof (cases v4)
                case (Inl e)
                with Pair Inr False p2 all oi p3 st stp ne p4 assms show ?thesis
                  by (simp add: defs)
              next
                case m: (Inr matched)
                with Pair Inr False p2 all oi p3 st stp ne p4 assms
                have r: "r = envelopeOf (sliceTo (map (withRoles byPract) matched) count)
                               None None None" and l: "log' = l4"
                  by (simp_all add: defs)
                from p4 m have ml: "matchedLoop up q pids 0 [] l3 = (Inr matched, l4)" by simp
                note ok = matchedLoop_ok[OF ml]
                have "practitioner.truncate ` set (sliceTo (map (withRoles byPract) matched) count)
                        \<subseteq> asPractitioner ` set (entriesOf (answers up l3
                             (map (practBatchRequest q) (take 5 (batchesOf 50 pids)))))"
                  using sub[of byPract matched] ok(2) by auto
                with r l ok(1) show ?thesis by (intro final[of _ _ l3 pids]) simp_all
              qed
            qed
          qed
        qed
      qed
    qed
  qed
qed

text \<open>
  C3, at the failing input \<^verbatim>\<open>?specialty_code=SM26&city=Lyon&count=-1\<close>, with one
  organization in Lyon and three practitioners there who hold the qualification: the
  page size is \<open>-1\<close>, \<^verbatim>\<open>slice(0, -1)\<close> drops the last practitioner only, and the
  response lists two results. The list is not capped to the requested page size.
  (For every page size the results are practitioners of the phase-3 fetch and the
  envelope has no upstream total, and a page size that is not negative does cap the
  list: the lemmas above.)
\<close>

theorem C3_negative_count_not_capped:
  "pageSize negativeCount = Num (- 1)
   \<and> resultIds (handleSearch lyonUpstream negativeCount []) = [''p1'', ''p2'']"
proof -
  have a: "pageSize negativeCount = Num (- 1)"
    by (simp add: pageSize_def negativeCount_def lyonParams_def noParams_def orElse_def
                  orEmpty_def truthy_def parseInt10_def trimStart_def unchunk_def wsPrefix_def whiteSpaces_def startsWith_def isDigit_def digitsVal_def
                  digitVal_def)
  have b: "resultIds (handleSearch lyonUpstream negativeCount []) = [''p1'', ''p2'']"
    by code_simp
  from a b show ?thesis by simp
qed

end
